theory Spec2Isabelle
  imports Complex_Main "HOL-Library.Sublist"
begin

section \<open>JavaScript strings\<close>

text \<open>
  A JavaScript string is a sequence of UTF-16 code units. The model uses \<^typ>\<open>string\<close>,
  whose characters are the code units below 256 (Latin-1): \<open>length\<close> is the source's
  \<open>.length\<close>, and the three built-ins the code calls are written out for that range.
\<close>

text \<open>
  \<open>String.prototype.toLowerCase\<close>: in the Latin-1 range the letters \<open>A\<close>..\<open>Z\<close> (65..90) and
  the accented capitals 192..222 other than the multiplication sign 215 move up by 32,
  which sets bit 5 of the code unit; every other code unit stays.
\<close>

definition toLowerCase_char :: "char \<Rightarrow> char" where
  "toLowerCase_char c =
     (let n = (of_char c :: nat)
      in if (65 \<le> n \<and> n \<le> 90) \<or> (192 \<le> n \<and> n \<le> 222 \<and> n \<noteq> 215)
         then (case c of Char b0 b1 b2 b3 b4 b5 b6 b7 \<Rightarrow> Char b0 b1 b2 b3 b4 True b6 b7)
         else c)"

definition toLowerCase :: "string \<Rightarrow> string" where
  "toLowerCase s = map toLowerCase_char s"

text \<open>\<open>String.prototype.includes\<close>: a search for the pattern at every position.\<close>

fun startsWith :: "string \<Rightarrow> string \<Rightarrow> bool" where
  "startsWith s [] = True"
| "startsWith [] (p # ps) = False"
| "startsWith (c # cs) (p # ps) = (c = p \<and> startsWith cs ps)"

fun js_includes :: "string \<Rightarrow> string \<Rightarrow> bool" where
  "js_includes [] pat = (pat = [])"
| "js_includes (c # cs) pat = (startsWith (c # cs) pat \<or> js_includes cs pat)"

text \<open>
  \<open>String.prototype.trim\<close> removes white space and line terminators from both ends; below
  256 these are TAB, LF, VT, FF, CR, SPACE and the no-break space 160.
\<close>

definition isWhiteSpace :: "char \<Rightarrow> bool" where
  "isWhiteSpace c = ((of_char c :: nat) \<in> {9, 10, 11, 12, 13, 32, 160})"

definition trim :: "string \<Rightarrow> string" where
  "trim s = rev (dropWhile isWhiteSpace (rev (dropWhile isWhiteSpace s)))"

text \<open>A string is truthy exactly when it is not empty.\<close>

definition truthy :: "string \<Rightarrow> bool" where
  "truthy s = (s \<noteq> [])"

section \<open>utils/errorUtils.ts\<close>

datatype js_error = TypeError

text \<open>
  The argument of \<open>parseApiError\<close> has the type \<open>any\<close> and is read twice:
  \<open>error?.message\<close> and \<open>String(error)\<close>. An \<open>api_error\<close> is a value whose \<open>message\<close> is a
  string or absent, as those of \<open>Error\<close> objects, DOM exceptions and events are:
  \<open>err_message\<close> is \<open>None\<close> when the value is null or undefined or has no \<open>message\<close>,
  and \<open>err_toString\<close> is what \<open>String(error)\<close> returns.
\<close>

record api_error =
  err_message :: "string option"
  err_toString :: string

text \<open>
  The other values: the \<open>message\<close> is a number (an integer here), a Boolean, or an
  object that has no string methods; each with what \<open>String(error)\<close> returns. Messages
  that are not strings but have a method \<open>includes\<close> of their own (arrays) are not
  modelled.
\<close>

datatype error_value =
    ErrorLike api_error
  | NumberMessage int string
  | BooleanMessage bool string
  | ObjectMessage string

text \<open>
  \<open>const message = error?.message || String(error)\<close>: the message when it is truthy,
  the string otherwise. A truthy message that is not a string stays what it is, and
  the call of \<open>message.includes\<close> that follows raises a \<open>TypeError\<close>.
\<close>

datatype message_read = Text string | NotText

definition error_text :: "error_value \<Rightarrow> message_read" where
  "error_text v =
     (case v of
        ErrorLike e \<Rightarrow>
          (case err_message e of
             Some m \<Rightarrow> if truthy m then Text m else Text (err_toString e)
           | None \<Rightarrow> Text (err_toString e))
      | NumberMessage n str \<Rightarrow> if n \<noteq> 0 then NotText else Text str
      | BooleanMessage b str \<Rightarrow> if b then NotText else Text str
      | ObjectMessage str \<Rightarrow> NotText)"

definition parseApiError :: "error_value \<Rightarrow> js_error + string" where
  "parseApiError v =
     (case error_text v of
        NotText \<Rightarrow> Inl TypeError
      | Text message \<Rightarrow> Inr (
      if js_includes message ''429'' \<or> js_includes (toLowerCase message) ''too many requests''
      then ''Rate limit exceeded. Please wait a moment before trying again.''
      else if js_includes message ''401'' \<or> js_includes (toLowerCase message) ''api key''
      then ''Invalid API key. Please check your configuration.''
      else if js_includes message ''403''
      then ''Permission denied. Your API key may not have access to this model or region.''
      else if js_includes message ''500'' \<or> js_includes message ''503''
      then ''The translation service is currently busy or unavailable. Please try again later.''
      else if js_includes (toLowerCase message) ''safety'' \<or> js_includes (toLowerCase message) ''blocked''
      then ''The content was flagged by safety filters and could not be processed.''
      else if js_includes (toLowerCase message) ''network'' \<or> js_includes (toLowerCase message) ''fetch''
      then ''Network error. Please check your internet connection.''
      else if js_includes (toLowerCase message) ''quota''
      then ''Account quota exceeded. Please check your Google AI Studio billing status.''
      else ''An unexpected error occurred: '' @ message))"

section \<open>types.ts\<close>

datatype role = User | Model

record turn =
  role :: role
  turn_text :: string

record voice_history_item =
  item_id :: string
  timestamp :: nat
  messages :: "turn list"
  summary :: "string option"

section \<open>components/LiveVoiceTranslator.tsx: data\<close>

text \<open>
  An \<open>AudioBuffer\<close> has a number of sample frames and a sample rate; its \<open>duration\<close>
  attribute is their quotient, in seconds.
\<close>

record audio_buffer =
  buf_length :: nat
  buf_sampleRate :: nat

definition duration :: "audio_buffer \<Rightarrow> real" where
  "duration b = real (buf_length b) / real (buf_sampleRate b)"

text \<open>
  An \<open>AudioBufferSourceNode\<close>. Every call of \<open>createBufferSource\<close> returns a new object;
  \<open>node_id\<close> is its identity.
\<close>

record source_node =
  node_id :: nat
  buffer :: audio_buffer
  playbackRate :: real

record media_stream =
  tracks :: "nat list"

text \<open>The calls the component makes on the platform, in the order it makes them.\<close>

datatype effect =
    SourceStart source_node real
  | SourceStop source_node
  | TrackStop nat
  | ContextClose nat
  | SessionClose nat
  | ConsoleError string

text \<open>
  A \<open>LiveServerMessage\<close>, as far as the handler reads it. Every property is optional;
  an absent Boolean reads as false.
\<close>

record blob =
  data :: "string option"

record part =
  inlineData :: "blob option"

record content =
  parts :: "part list option"

record transcription =
  transcription_text :: "string option"

record server_content =
  modelTurn :: "content option"
  interrupted :: bool
  inputTranscription :: "transcription option"
  outputTranscription :: "transcription option"
  turnComplete :: bool

record server_message =
  serverContent :: "server_content option"

record turn_buffer =
  user :: string
  model :: string

text \<open>
  The component's state hooks and refs. \<open>speechRate\<close> is the value the handlers of the
  running session have captured; \<open>created\<close> counts the source nodes made so far and
  \<open>calls\<close> lists the platform calls made so far.
\<close>

record live_state =
  isActive :: bool
  isConnecting :: bool
  transcriptions :: "turn list"
  error :: "string option"
  speechRate :: real
  history :: "voice_history_item list"
  audioCtx :: "nat option"
  outputAudioCtx :: "nat option"
  sessionPromise :: "nat option"
  nextStartTime :: real
  sources :: "source_node list"
  stream :: "media_stream option"
  currentTranscription :: turn_buffer
  created :: nat
  calls :: "effect list"

text \<open>What the environment supplies to a call: \<open>crypto.randomUUID()\<close> and \<open>Date.now()\<close>.\<close>

record env =
  randomUUID :: string
  dateNow :: nat

text \<open>
  \<open>decodeAudioData(decode(audioData), outCtx, 24000, 1)\<close> followed by the creation and
  wiring of the source node: \<open>utils/audioUtils\<close> is not part of the sources, so the result
  is a parameter. \<open>None\<close> stands for an exception raised inside the \<open>try\<close> block.
\<close>

type_synonym decoder = "string \<Rightarrow> audio_buffer option"

section \<open>components/LiveVoiceTranslator.tsx: operations\<close>

text \<open>\<open>xs.slice(-n)\<close>: the last \<open>n\<close> elements, all of them when there are fewer.\<close>

definition slice_last :: "nat \<Rightarrow> 'a list \<Rightarrow> 'a list" where
  "slice_last n xs = drop (length xs - n) xs"

text \<open>The object literal \<open>newItem\<close> of \<open>saveCurrentSessionToHistory\<close>, for a non-empty \<open>msgs\<close>.\<close>

definition newItem :: "env \<Rightarrow> turn \<Rightarrow> turn list \<Rightarrow> voice_history_item" where
  "newItem e m0 rest =
     (let firstMsg = turn_text m0;
          summary = (if length firstMsg > 60 then take 60 firstMsg @ ''...'' else firstMsg)
      in \<lparr>item_id = randomUUID e, timestamp = dateNow e, messages = m0 # rest,
          summary = Some summary\<rparr>)"

definition saveCurrentSessionToHistory :: "env \<Rightarrow> turn list \<Rightarrow> live_state \<Rightarrow> live_state" where
  "saveCurrentSessionToHistory e msgs s =
     (case msgs of
        [] \<Rightarrow> s
      | m0 # rest \<Rightarrow> s\<lparr>history := take 30 (newItem e m0 rest # history s)\<rparr>)"

text \<open>
  The parts of \<open>stopSession\<close>, in the order of the source. Each guarded release sets its
  ref to null; \<open>src.stop()\<close> is wrapped in \<open>try\<close>/\<open>catch\<close>, so the loop over the sources
  cannot raise.
\<close>

definition stop_tracks :: "live_state \<Rightarrow> live_state" where
  "stop_tracks s =
     (case stream s of
        Some st \<Rightarrow> s\<lparr>calls := calls s @ map TrackStop (tracks st), stream := None\<rparr>
      | None \<Rightarrow> s)"

definition close_audioCtx :: "live_state \<Rightarrow> live_state" where
  "close_audioCtx s =
     (case audioCtx s of
        Some c \<Rightarrow> s\<lparr>calls := calls s @ [ContextClose c], audioCtx := None\<rparr>
      | None \<Rightarrow> s)"

definition close_outputAudioCtx :: "live_state \<Rightarrow> live_state" where
  "close_outputAudioCtx s =
     (case outputAudioCtx s of
        Some c \<Rightarrow> s\<lparr>calls := calls s @ [ContextClose c], outputAudioCtx := None\<rparr>
      | None \<Rightarrow> s)"

definition stop_sources :: "live_state \<Rightarrow> live_state" where
  "stop_sources s = s\<lparr>calls := calls s @ map SourceStop (sources s), sources := []\<rparr>"

definition close_session :: "live_state \<Rightarrow> live_state" where
  "close_session s =
     (case sessionPromise s of
        Some p \<Rightarrow> s\<lparr>calls := calls s @ [SessionClose p], sessionPromise := None\<rparr>
      | None \<Rightarrow> s)"

text \<open>
  A function of the component reads a state variable as the value it had in the render
  that created the function. \<open>stopSession\<close> and \<open>startSession\<close> read \<open>isActive\<close> in this
  way: their first argument is that value. The updater passed to \<open>setTranscriptions\<close>
  receives the current transcript.
\<close>

definition stopSession :: "bool \<Rightarrow> env \<Rightarrow> live_state \<Rightarrow> live_state" where
  "stopSession active e s =
     (let s1 = (if active then saveCurrentSessionToHistory e (transcriptions s) s else s);
          s2 = s1\<lparr>isActive := False, isConnecting := False\<rparr>
      in close_session (stop_sources (close_outputAudioCtx (close_audioCtx (stop_tracks s2)))))"

text \<open>
  \<open>startSession\<close>. The third argument is the outcome of the \<open>try\<close> block up to the call of
  \<open>connect\<close>: the microphone stream, the two audio contexts and the session promise that
  were created, or the error caught together with the refs that had been assigned
  before it was raised. The \<open>catch\<close> block calls the \<open>stopSession\<close> of the same render.
\<close>

type_synonym acquisition =
  "(error_value \<times> media_stream option \<times> nat option \<times> nat option)
   + (media_stream \<times> nat \<times> nat \<times> nat)"

text \<open>
  In the \<open>catch\<close> block \<open>parseApiError(err)\<close> is evaluated after the error has been
  logged; when it raises, the lines after it are not reached and the call ends there.
\<close>

definition startSession :: "bool \<Rightarrow> env \<Rightarrow> acquisition \<Rightarrow> live_state \<Rightarrow> live_state" where
  "startSession active e acquired s =
     (if active then s
      else
        let s1 = s\<lparr>isConnecting := True, error := None, transcriptions := []\<rparr>
        in (case acquired of
              Inr (st, inCtx, outCtx, p) \<Rightarrow>
                s1\<lparr>stream := Some st, audioCtx := Some inCtx, outputAudioCtx := Some outCtx,
                   sessionPromise := Some p\<rparr>
            | Inl (err, st, inCtx, outCtx) \<Rightarrow>
                (let s2 = s1\<lparr>stream := (case st of Some x \<Rightarrow> Some x | None \<Rightarrow> stream s1),
                              audioCtx :=
                                (case inCtx of Some x \<Rightarrow> Some x | None \<Rightarrow> audioCtx s1),
                              outputAudioCtx :=
                                (case outCtx of Some x \<Rightarrow> Some x | None \<Rightarrow> outputAudioCtx s1),
                              calls := calls s1 @ [ConsoleError ''Failed to start session:'']\<rparr>
                 in (case parseApiError err of
                       Inr text \<Rightarrow>
                         stopSession active e (s2\<lparr>error := Some text, isConnecting := False\<rparr>)
                     | Inl raised \<Rightarrow> s2))))"

text \<open>
  The callbacks \<open>onerror\<close> and \<open>onclose\<close> of a session are created by the call of
  \<open>startSession\<close> that opens it, which goes past its first line only when \<open>isActive\<close> is
  false in its render; the \<open>stopSession\<close> they call is the one of that render.
  \<open>onerror\<close> receives an event: its \<open>message\<close> is a string or absent.
\<close>

definition onerror :: "env \<Rightarrow> api_error \<Rightarrow> live_state \<Rightarrow> live_state" where
  "onerror e err s =
     (let s1 = s\<lparr>calls := calls s @ [ConsoleError ''Live session error:'']\<rparr>
      in (case parseApiError (ErrorLike err) of
            Inr text \<Rightarrow> stopSession False e (s1\<lparr>error := Some (''Session error: '' @ text)\<rparr>)
          | Inl raised \<Rightarrow> s1))"

definition onclose :: "env \<Rightarrow> live_state \<Rightarrow> live_state" where
  "onclose e s = stopSession False e s"

text \<open>
  The buttons \<open>Start Listening\<close> and \<open>End Session\<close> call the functions of the latest
  render, which has the current value of \<open>isActive\<close>.
\<close>

definition press_start :: "env \<Rightarrow> acquisition \<Rightarrow> live_state \<Rightarrow> live_state" where
  "press_start e acquired s = startSession (isActive s) e acquired s"

definition press_stop :: "env \<Rightarrow> live_state \<Rightarrow> live_state" where
  "press_stop e s = stopSession (isActive s) e s"

text \<open>The \<open>onopen\<close> callback, without the wiring of the microphone to the session.\<close>

definition onopen :: "live_state \<Rightarrow> live_state" where
  "onopen s = s\<lparr>isActive := True, isConnecting := False\<rparr>"

text \<open>The \<open>onended\<close> callback of a source node: \<open>sourcesRef.current.delete(source)\<close>.\<close>

definition onended :: "source_node \<Rightarrow> live_state \<Rightarrow> live_state" where
  "onended src s = s\<lparr>sources := filter (\<lambda>n. node_id n \<noteq> node_id src) (sources s)\<rparr>"

text \<open>
  \<open>message.serverContent?.modelTurn?.parts[0]?.inlineData?.data\<close>. The index into \<open>parts\<close>
  is not guarded: a model turn without \<open>parts\<close> raises a \<open>TypeError\<close>.
\<close>

definition audioData :: "server_message \<Rightarrow> js_error + string option" where
  "audioData msg =
     (case serverContent msg of
        None \<Rightarrow> Inr None
      | Some sc \<Rightarrow>
          (case modelTurn sc of
             None \<Rightarrow> Inr None
           | Some mt \<Rightarrow>
               (case parts mt of
                  None \<Rightarrow> Inl TypeError
                | Some [] \<Rightarrow> Inr None
                | Some (p # ps) \<Rightarrow>
                    (case inlineData p of
                       None \<Rightarrow> Inr None
                     | Some b \<Rightarrow> Inr (data b)))))"

text \<open>The other optional reads of the handler.\<close>

definition is_interrupted :: "server_message \<Rightarrow> bool" where
  "is_interrupted msg = (case serverContent msg of None \<Rightarrow> False | Some sc \<Rightarrow> interrupted sc)"

definition is_turnComplete :: "server_message \<Rightarrow> bool" where
  "is_turnComplete msg = (case serverContent msg of None \<Rightarrow> False | Some sc \<Rightarrow> turnComplete sc)"

text \<open>\<open>acc += t.text\<close>: an absent \<open>text\<close> is appended as the string \<open>undefined\<close>.\<close>

definition append_text :: "string \<Rightarrow> transcription \<Rightarrow> string" where
  "append_text acc t =
     acc @ (case transcription_text t of Some x \<Rightarrow> x | None \<Rightarrow> ''undefined'')"

text \<open>
  The handler is an \<open>async\<close> function: a call that reaches \<open>await decodeAudioData\<close> is
  suspended there, and other handlers can run before it goes on. The body of
  \<open>if (audioData)\<close>, once the output context has been read, has a part on each side of
  the \<open>await\<close>: before it the cursor is clamped to \<open>now\<close>, the \<open>currentTime\<close> of the
  output context; after it comes the rest of the \<open>try\<close> block, in the state the call
  then finds: the clip is started at the cursor, the cursor is advanced and the node is
  added to the set. When the decoding fails the \<open>catch\<close> block logs.
\<close>

definition clamp_cursor :: "real \<Rightarrow> live_state \<Rightarrow> live_state" where
  "clamp_cursor now s = s\<lparr>nextStartTime := max (nextStartTime s) now\<rparr>"

definition play_decoded :: "decoder \<Rightarrow> string \<Rightarrow> live_state \<Rightarrow> live_state" where
  "play_decoded dec d s =
     (case dec d of
        Some audioBuffer \<Rightarrow>
          (let source = \<lparr>node_id = created s, buffer = audioBuffer, playbackRate = speechRate s\<rparr>
           in s\<lparr>created := created s + 1,
                calls := calls s @ [SourceStart source (nextStartTime s)],
                nextStartTime := nextStartTime s + duration audioBuffer / speechRate s,
                sources := sources s @ [source]\<rparr>)
      | None \<Rightarrow> s\<lparr>calls := calls s @ [ConsoleError ''Audio decoding error:'']\<rparr>)"

text \<open>
  The two parts run one after the other with no other handler in between: the audio
  branch of a call whose decoding is over before the next event is handled.
\<close>

definition schedule_audio :: "decoder \<Rightarrow> real \<Rightarrow> string \<Rightarrow> live_state \<Rightarrow> live_state" where
  "schedule_audio dec now d s = play_decoded dec d (clamp_cursor now s)"

definition handle_interrupted :: "server_message \<Rightarrow> live_state \<Rightarrow> live_state" where
  "handle_interrupted msg s =
     (if is_interrupted msg then (stop_sources s)\<lparr>nextStartTime := 0\<rparr> else s)"

definition handle_transcription :: "server_message \<Rightarrow> live_state \<Rightarrow> live_state" where
  "handle_transcription msg s =
     (case serverContent msg of
        None \<Rightarrow> s
      | Some sc \<Rightarrow>
          (let b = currentTranscription s;
               b1 = (case inputTranscription sc of
                       Some t \<Rightarrow> b\<lparr>user := append_text (user b) t\<rparr> | None \<Rightarrow> b);
               b2 = (case outputTranscription sc of
                       Some t \<Rightarrow> b1\<lparr>model := append_text (model b1) t\<rparr> | None \<Rightarrow> b1)
           in s\<lparr>currentTranscription := b2\<rparr>))"

text \<open>The array literal spread after \<open>...prev\<close> in the \<open>turnComplete\<close> branch.\<close>

definition completed_turns :: "string \<Rightarrow> string \<Rightarrow> turn list" where
  "completed_turns u m =
     (if truthy u then [\<lparr>role = User, turn_text = u\<rparr>] else []) @
     (if truthy m then [\<lparr>role = Model, turn_text = m\<rparr>] else [])"

definition handle_turnComplete :: "server_message \<Rightarrow> live_state \<Rightarrow> live_state" where
  "handle_turnComplete msg s =
     (if is_turnComplete msg
      then
        (let u = trim (user (currentTranscription s));
             m = trim (model (currentTranscription s));
             s1 = (if truthy u \<or> truthy m
                   then s\<lparr>transcriptions :=
                            slice_last 20 (transcriptions s @ completed_turns u m)\<rparr>
                   else s)
         in s1\<lparr>currentTranscription := \<lparr>user = [], model = []\<rparr>\<rparr>)
      else s)"

text \<open>The part of the handler after the audio branch.\<close>

definition after_audio :: "server_message \<Rightarrow> live_state \<Rightarrow> live_state" where
  "after_audio msg s = handle_turnComplete msg (handle_transcription msg (handle_interrupted msg s))"

text \<open>
  A handler call up to its suspension. \<open>now\<close> is the \<open>currentTime\<close> of the output context
  at the call. The result holds the payload being decoded when the call is suspended,
  and \<open>None\<close> when the call has run to its end (a message without audio). The two
  places that can raise outside a \<open>try\<close> block come before the first write, so a
  raised error leaves the state as it was: the result is then \<open>Inl\<close>.
\<close>

definition onmessage_begin ::
  "real \<Rightarrow> server_message \<Rightarrow> live_state \<Rightarrow> js_error + live_state \<times> string option" where
  "onmessage_begin now msg s =
     (case audioData msg of
        Inl err \<Rightarrow> Inl err
      | Inr None \<Rightarrow> Inr (after_audio msg s, None)
      | Inr (Some d) \<Rightarrow>
          if truthy d
          then (case outputAudioCtx s of
                  None \<Rightarrow> Inl TypeError
                | Some outCtx \<Rightarrow> Inr (clamp_cursor now s, Some d))
          else Inr (after_audio msg s, None))"

text \<open>A suspended call going on to its end, in the state it then finds.\<close>

definition onmessage_resume ::
  "decoder \<Rightarrow> string \<Rightarrow> server_message \<Rightarrow> live_state \<Rightarrow> live_state" where
  "onmessage_resume dec d msg s = after_audio msg (play_decoded dec d s)"

text \<open>
  \<open>onmessage\<close>: a whole handler call that no other handler overlaps, that is
  \<open>onmessage_begin\<close> followed at once by \<open>onmessage_resume\<close>. Runs in which calls
  overlap are those of \<open>run\<close> below.
\<close>

definition onmessage ::
  "decoder \<Rightarrow> real \<Rightarrow> server_message \<Rightarrow> live_state \<Rightarrow> js_error + live_state" where
  "onmessage dec now msg s =
     (case onmessage_begin now msg s of
        Inl err \<Rightarrow> Inl err
      | Inr (s1, None) \<Rightarrow> Inr s1
      | Inr (s1, Some d) \<Rightarrow> Inr (onmessage_resume dec d msg s1))"

text \<open>
  Events of a session in which no two handler calls overlap, in the order the event
  loop delivers them: a server message with the output clock at its handling, and the
  end of a source node's playback. A handler that raised leaves the state unchanged.
\<close>

datatype event = ServerMessage real server_message | SourceEnded source_node

definition handle :: "decoder \<Rightarrow> event \<Rightarrow> live_state \<Rightarrow> live_state" where
  "handle dec ev s =
     (case ev of
        ServerMessage now msg \<Rightarrow> (case onmessage dec now msg s of Inr s' \<Rightarrow> s' | Inl err \<Rightarrow> s)
      | SourceEnded src \<Rightarrow> onended src s)"

fun handle_all :: "decoder \<Rightarrow> live_state \<Rightarrow> event list \<Rightarrow> live_state" where
  "handle_all dec s [] = s"
| "handle_all dec s (ev # evs) = handle_all dec (handle dec ev s) evs"

text \<open>
  Runs in which handler calls overlap. A suspended call keeps its message and the
  payload it awaits; \<open>clock_read\<close> records the clock it read for its clamp. The steps of
  the event loop: a message arrives (with the output clock at that moment), the
  suspended call at a position of the list goes on (with the output clock at that
  moment, which the call does not read), a source node ends. Resuming a call that is
  not there changes nothing.
\<close>

record suspended_call =
  clock_read :: real
  awaited :: string
  call_message :: server_message

datatype step = Arrive real server_message | Resume real nat | PlaybackEnded source_node

fun do_step ::
  "decoder \<Rightarrow> step \<Rightarrow> live_state \<times> suspended_call list \<Rightarrow> live_state \<times> suspended_call list" where
  "do_step dec (Arrive now msg) (s, ps) =
     (case onmessage_begin now msg s of
        Inl err \<Rightarrow> (s, ps)
      | Inr (s', None) \<Rightarrow> (s', ps)
      | Inr (s', Some d) \<Rightarrow>
          (s', ps @ [\<lparr>clock_read = now, awaited = d, call_message = msg\<rparr>]))"
| "do_step dec (Resume now k) (s, ps) =
     (if k < length ps
      then (onmessage_resume dec (awaited (ps ! k)) (call_message (ps ! k)) s,
            take k ps @ drop (Suc k) ps)
      else (s, ps))"
| "do_step dec (PlaybackEnded src) (s, ps) = (onended src s, ps)"

fun run ::
  "decoder \<Rightarrow> live_state \<times> suspended_call list \<Rightarrow> step list \<Rightarrow> live_state \<times> suspended_call list" where
  "run dec c [] = c"
| "run dec c (st # sts) = run dec (do_step dec st c) sts"

section \<open>Observations on a run\<close>

text \<open>
  The platform calls made between two states, and among calls those of \<open>source.start\<close>,
  each with its node and its start time.
\<close>

definition new_calls :: "live_state \<Rightarrow> live_state \<Rightarrow> effect list" where
  "new_calls s s' = drop (length (calls s)) (calls s')"

fun started :: "effect list \<Rightarrow> (source_node \<times> real) list" where
  "started [] = []"
| "started (SourceStart n w # cs) = (n, w) # started cs"
| "started (c # cs) = started cs"

text \<open>The output clock read by an event's handler, and whether the event interrupts.\<close>

fun clock :: "event \<Rightarrow> real" where
  "clock (ServerMessage now msg) = now"
| "clock (SourceEnded src) = 0"

fun interrupts :: "event \<Rightarrow> bool" where
  "interrupts (ServerMessage now msg) = is_interrupted msg"
| "interrupts (SourceEnded src) = False"

text \<open>
  The clips scheduled during a run, in order: for every call of \<open>source.start\<close> the clock
  reading of the message, the node and the start time passed.
\<close>

fun clips :: "decoder \<Rightarrow> live_state \<Rightarrow> event list \<Rightarrow> (real \<times> source_node \<times> real) list" where
  "clips dec s [] = []"
| "clips dec s (ev # evs) =
     map (\<lambda>(n, w). (clock ev, n, w)) (started (new_calls s (handle dec ev s)))
     @ clips dec (handle dec ev s) evs"

text \<open>
  \<open>no_overlap r xs\<close>: every clip after the first starts at or after the start of the clip
  before it plus that clip's duration divided by \<open>r\<close>, and at or after its own clock
  reading. \<open>no_overlap_from r c xs\<close> asks the same of all clips, the first starting at or
  after \<open>c\<close>.
\<close>

fun no_overlap_from :: "real \<Rightarrow> real \<Rightarrow> (real \<times> source_node \<times> real) list \<Rightarrow> bool" where
  "no_overlap_from r c [] = True"
| "no_overlap_from r c ((now, n, w) # xs) =
     (c \<le> w \<and> now \<le> w \<and> no_overlap_from r (w + duration (buffer n) / r) xs)"

definition no_overlap :: "real \<Rightarrow> (real \<times> source_node \<times> real) list \<Rightarrow> bool" where
  "no_overlap r xs =
     (case xs of [] \<Rightarrow> True
      | (now, n, w) # rest \<Rightarrow> no_overlap_from r (w + duration (buffer n) / r) rest)"

text \<open>Whether handling the event enters the audio branch of \<open>onmessage\<close>.\<close>

definition has_audio :: "server_message \<Rightarrow> bool" where
  "has_audio msg = (case audioData msg of Inr (Some d) \<Rightarrow> truthy d | _ \<Rightarrow> False)"

fun carries_audio :: "event \<Rightarrow> bool" where
  "carries_audio (ServerMessage now msg) = has_audio msg"
| "carries_audio (SourceEnded src) = False"

text \<open>
  The same for the steps of an overlapped run: whether a step is the arrival of a
  message with an interruption; whether it belongs to a handler call whose message
  carries an interruption (the arrival of the message, or the call going on after its
  suspension); whether it is an arrival without audio or the end of a source node (so
  that no call is suspended or resumed by it); and whether it is both without audio
  and without interruption.
\<close>

fun step_interrupted :: "step \<Rightarrow> bool" where
  "step_interrupted (Arrive now msg) = is_interrupted msg"
| "step_interrupted (Resume now k) = False"
| "step_interrupted (PlaybackEnded src) = False"

fun handles_interruption :: "step \<Rightarrow> suspended_call list \<Rightarrow> bool" where
  "handles_interruption (Arrive now msg) ps = is_interrupted msg"
| "handles_interruption (Resume now k) ps = (k < length ps \<and> is_interrupted (call_message (ps ! k)))"
| "handles_interruption (PlaybackEnded src) ps = False"

fun without_audio :: "step \<Rightarrow> bool" where
  "without_audio (Arrive now msg) = (\<not> has_audio msg)"
| "without_audio (Resume now k) = False"
| "without_audio (PlaybackEnded src) = True"

definition quiet_step :: "step \<Rightarrow> bool" where
  "quiet_step st = (without_audio st \<and> \<not> step_interrupted st)"

text \<open>
  The clips started during an overlapped run, in order: for every call of
  \<open>source.start\<close> the clock the call had read for its clamp, the clock at the moment of
  the start, and the start time passed.
\<close>

fun scheduled ::
  "decoder \<Rightarrow> live_state \<times> suspended_call list \<Rightarrow> step list \<Rightarrow> (real \<times> real \<times> real) list" where
  "scheduled dec c [] = []"
| "scheduled dec c (st # sts) =
     (case st of
        Resume now k \<Rightarrow>
          if k < length (snd c)
          then map (\<lambda>(n, w). (clock_read (snd c ! k), now, w))
                 (started (new_calls (fst c) (fst (do_step dec st c))))
          else []
      | _ \<Rightarrow> [])
     @ scheduled dec (do_step dec st c) sts"

text \<open>
  The same clips as \<open>clips\<close> gives them for a run without overlap: the clock the call
  had read, the node, and the start time passed.
\<close>

fun overlapped_clips ::
  "decoder \<Rightarrow> live_state \<times> suspended_call list \<Rightarrow> step list
     \<Rightarrow> (real \<times> source_node \<times> real) list" where
  "overlapped_clips dec c [] = []"
| "overlapped_clips dec c (st # sts) =
     (case st of
        Resume now k \<Rightarrow>
          if k < length (snd c)
          then map (\<lambda>(n, w). (clock_read (snd c ! k), n, w))
                 (started (new_calls (fst c) (fst (do_step dec st c))))
          else []
      | _ \<Rightarrow> [])
     @ overlapped_clips dec (do_step dec st c) sts"

text \<open>
  A state with its suspended calls is settled when the cursor is at or after the clock
  each suspended call has read and none of their messages carries an interruption.
\<close>

definition settled :: "live_state \<times> suspended_call list \<Rightarrow> bool" where
  "settled c =
     list_all (\<lambda>p. clock_read p \<le> nextStartTime (fst c) \<and> \<not> is_interrupted (call_message p))
       (snd c)"

text \<open>
  The turns that handling an event commits: the turns of the array literal of the
  \<open>turnComplete\<close> branch, when the handler reaches that branch.
\<close>

definition flushed :: "decoder \<Rightarrow> event \<Rightarrow> live_state \<Rightarrow> turn list" where
  "flushed dec ev s =
     (case ev of
        ServerMessage now msg \<Rightarrow>
          (case onmessage dec now msg s of
             Inr s' \<Rightarrow>
               if is_turnComplete msg
               then completed_turns
                      (trim (user (currentTranscription (handle_transcription msg s))))
                      (trim (model (currentTranscription (handle_transcription msg s))))
               else []
           | Inl err \<Rightarrow> [])
      | SourceEnded src \<Rightarrow> [])"

fun committed :: "decoder \<Rightarrow> live_state \<Rightarrow> event list \<Rightarrow> turn list" where
  "committed dec s [] = []"
| "committed dec s (ev # evs) = flushed dec ev s @ committed dec (handle dec ev s) evs"

section \<open>Example session\<close>

text \<open>
  The component as mounted with speech rate \<open>r\<close> and an empty history; the session that
  the \<open>Start Listening\<close> button opens from it; a decoder that fails on one payload and
  gives the others half a second per character; and messages with one field each.
\<close>

definition initial_state :: "real \<Rightarrow> live_state" where
  "initial_state r =
     \<lparr>isActive = False, isConnecting = False, transcriptions = [], error = None,
      speechRate = r, history = [], audioCtx = None, outputAudioCtx = None,
      sessionPromise = None, nextStartTime = 0, sources = [], stream = None,
      currentTranscription = \<lparr>user = [], model = []\<rparr>, created = 0, calls = []\<rparr>"

definition example_env :: env where
  "example_env = \<lparr>randomUUID = ''7c9e6679'', dateNow = 1700000000000\<rparr>"

definition live_example :: "real \<Rightarrow> live_state" where
  "live_example r =
     onopen (press_start example_env (Inr (\<lparr>tracks = [0]\<rparr>, 1, 2, 3)) (initial_state r))"

definition example_decoder :: decoder where
  "example_decoder d =
     (if d = ''corrupt'' then None
      else Some \<lparr>buf_length = 12000 * length d, buf_sampleRate = 24000\<rparr>)"

definition empty_content :: server_content where
  "empty_content =
     \<lparr>modelTurn = None, interrupted = False, inputTranscription = None,
      outputTranscription = None, turnComplete = False\<rparr>"

definition audio_message :: "string \<Rightarrow> server_message" where
  "audio_message d =
     \<lparr>serverContent = Some (empty_content
        \<lparr>modelTurn := Some \<lparr>parts = Some [\<lparr>inlineData = Some \<lparr>data = Some d\<rparr>\<rparr>]\<rparr>\<rparr>)\<rparr>"

definition interrupted_message :: server_message where
  "interrupted_message = \<lparr>serverContent = Some (empty_content\<lparr>interrupted := True\<rparr>)\<rparr>"

definition input_message :: "string \<Rightarrow> server_message" where
  "input_message t =
     \<lparr>serverContent = Some (empty_content
        \<lparr>inputTranscription := Some \<lparr>transcription_text = Some t\<rparr>\<rparr>)\<rparr>"

definition output_message :: "string \<Rightarrow> server_message" where
  "output_message t =
     \<lparr>serverContent = Some (empty_content
        \<lparr>outputTranscription := Some \<lparr>transcription_text = Some t\<rparr>\<rparr>)\<rparr>"

definition turnComplete_message :: server_message where
  "turnComplete_message = \<lparr>serverContent = Some (empty_content\<lparr>turnComplete := True\<rparr>)\<rparr>"

definition exchange_message :: "string \<Rightarrow> string \<Rightarrow> server_message" where
  "exchange_message u m =
     \<lparr>serverContent = Some (empty_content
        \<lparr>inputTranscription := Some \<lparr>transcription_text = Some u\<rparr>,
         outputTranscription := Some \<lparr>transcription_text = Some m\<rparr>,
         turnComplete := True\<rparr>)\<rparr>"

definition hello_session :: "event list" where
  "hello_session =
     [ServerMessage 1 (input_message ''Hel''), ServerMessage 2 (input_message ''lo''),
      ServerMessage 3 turnComplete_message]"

definition long_session :: "event list" where
  "long_session =
     [ServerMessage 1 (exchange_message ''u1'' ''m1''),
      ServerMessage 2 (exchange_message ''u2'' ''m2''),
      ServerMessage 3 (exchange_message ''u3'' ''m3''),
      ServerMessage 4 (exchange_message ''u4'' ''m4''),
      ServerMessage 5 (exchange_message ''u5'' ''m5''),
      ServerMessage 6 (exchange_message ''u6'' ''m6''),
      ServerMessage 7 (exchange_message ''u7'' ''m7''),
      ServerMessage 8 (exchange_message ''u8'' ''m8''),
      ServerMessage 9 (exchange_message ''u9'' ''m9''),
      ServerMessage 10 (exchange_message ''u10'' ''m10''),
      ServerMessage 11 (exchange_message ''u11'' ''m11'')]"

section \<open>The error classification of the specification\<close>

text \<open>
  The classification as the specification words it, to be compared with
  \<open>parseApiError\<close>: a text contains a word when the word stands somewhere in it; it
  contains a word whatever the case when a stretch of the text agrees with the word
  letter by letter, a capital ASCII letter in the text counting as its small letter;
  the rules are tried in order and the first that applies gives the message.
\<close>

definition contains :: "string \<Rightarrow> string \<Rightarrow> bool" where
  "contains m w \<longleftrightarrow> (\<exists>pre post. m = pre @ w @ post)"

definition same_letter :: "char \<Rightarrow> char \<Rightarrow> bool" where
  "same_letter c d \<longleftrightarrow>
     c = d \<or> (97 \<le> (of_char d :: nat) \<and> (of_char d :: nat) \<le> 122
              \<and> (of_char c :: nat) + 32 = of_char d)"

definition contains_ignoring_case :: "string \<Rightarrow> string \<Rightarrow> bool" where
  "contains_ignoring_case m w \<longleftrightarrow>
     (\<exists>pre u post. m = pre @ u @ post \<and> list_all2 same_letter u w)"

fun first_match :: "((string \<Rightarrow> bool) \<times> string) list \<Rightarrow> string \<Rightarrow> string \<Rightarrow> string" where
  "first_match [] fallback m = fallback"
| "first_match ((applies, result) # rules) fallback m =
     (if applies m then result else first_match rules fallback m)"

definition classification_rules :: "((string \<Rightarrow> bool) \<times> string) list" where
  "classification_rules =
     [(\<lambda>m. contains m ''429'' \<or> contains_ignoring_case m ''too many requests'',
       ''Rate limit exceeded. Please wait a moment before trying again.''),
      (\<lambda>m. contains m ''401'' \<or> contains_ignoring_case m ''api key'',
       ''Invalid API key. Please check your configuration.''),
      (\<lambda>m. contains m ''403'',
       ''Permission denied. Your API key may not have access to this model or region.''),
      (\<lambda>m. contains m ''500'' \<or> contains m ''503'',
       ''The translation service is currently busy or unavailable. Please try again later.''),
      (\<lambda>m. contains_ignoring_case m ''safety'' \<or> contains_ignoring_case m ''blocked'',
       ''The content was flagged by safety filters and could not be processed.''),
      (\<lambda>m. contains_ignoring_case m ''network'' \<or> contains_ignoring_case m ''fetch'',
       ''Network error. Please check your internet connection.''),
      (\<lambda>m. contains_ignoring_case m ''quota'',
       ''Account quota exceeded. Please check your Google AI Studio billing status.'')]"

definition classified :: "string \<Rightarrow> string" where
  "classified m = first_match classification_rules (''An unexpected error occurred: '' @ m) m"

text \<open>The characters of the words of the rules: small ASCII letters and the space.\<close>

definition pattern_char :: "char \<Rightarrow> bool" where
  "pattern_char d \<longleftrightarrow> (97 \<le> (of_char d :: nat) \<and> (of_char d :: nat) \<le> 122) \<or> d = CHR '' ''"

section \<open>Facts about the string functions\<close>

lemma startsWith_prefix: "startsWith s p \<longleftrightarrow> prefix p s"
  by (induction s p rule: startsWith.induct) auto

lemma js_includes_sublist: "js_includes s p \<longleftrightarrow> sublist p s"
  by (induction s) (auto simp: startsWith_prefix sublist_Cons_right)

lemma js_includes_contains: "js_includes m w \<longleftrightarrow> contains m w"
  by (simp add: js_includes_sublist sublist_def contains_def)

lemma toLowerCase_char_code:
  "(of_char (toLowerCase_char c) :: nat) =
     (if (65 \<le> (of_char c :: nat) \<and> (of_char c :: nat) \<le> 90)
         \<or> (192 \<le> (of_char c :: nat) \<and> (of_char c :: nat) \<le> 222 \<and> (of_char c :: nat) \<noteq> 215)
      then of_char c + 32 else of_char c)"
  apply (cases c)
  subgoal for b0 b1 b2 b3 b4 b5 b6 b7
    by (cases b0; cases b1; cases b2; cases b3; cases b4; cases b5; cases b6; cases b7;
        simp add: toLowerCase_char_def)
  done

lemma of_char_nat_inj: "(of_char c :: nat) = of_char d \<longleftrightarrow> c = d"
  by (metis char_of_char)

lemma of_char_nat_less: "(of_char c :: nat) < 256"
  by (cases c) (simp add: of_char_Char horner_sum_bound)

lemma toLowerCase_char_same_letter:
  assumes "pattern_char d"
  shows "toLowerCase_char c = d \<longleftrightarrow> same_letter c d"
proof -
  have "toLowerCase_char c = d \<longleftrightarrow> (of_char (toLowerCase_char c) :: nat) = of_char d"
    by (simp add: of_char_nat_inj)
  also have "\<dots> \<longleftrightarrow> same_letter c d"
    using assms of_char_nat_inj [of c d]
    by (auto simp: toLowerCase_char_code same_letter_def pattern_char_def)
  finally show ?thesis .
qed


lemma map_eq_list_all2:
  "list_all pattern_char w \<Longrightarrow> map toLowerCase_char u = w \<longleftrightarrow> list_all2 same_letter u w"
proof (induction u arbitrary: w)
  case Nil
  then show ?case by auto
next
  case (Cons c u)
  then show ?case
    by (cases w) (auto simp: toLowerCase_char_same_letter)
qed

lemma includes_lowered:
  assumes "list_all pattern_char w"
  shows "js_includes (toLowerCase m) w \<longleftrightarrow> contains_ignoring_case m w"
proof
  assume "js_includes (toLowerCase m) w"
  then obtain pre post where "map toLowerCase_char m = pre @ w @ post"
    by (auto simp: js_includes_sublist sublist_def toLowerCase_def)
  then obtain p vs where pv: "m = p @ vs" and vs: "map toLowerCase_char vs = w @ post"
    by (metis map_eq_append_conv)
  from vs obtain u q where uq: "vs = u @ q" and u: "map toLowerCase_char u = w"
    by (metis map_eq_append_conv)
  from pv uq have m: "m = p @ u @ q" by simp
  from u assms have "list_all2 same_letter u w"
    by (simp add: map_eq_list_all2)
  with m show "contains_ignoring_case m w"
    unfolding contains_ignoring_case_def by blast
next
  assume "contains_ignoring_case m w"
  then obtain p u q where m: "m = p @ u @ q" and u: "list_all2 same_letter u w"
    unfolding contains_ignoring_case_def by blast
  from u assms have "map toLowerCase_char u = w"
    by (simp add: map_eq_list_all2)
  with m have "map toLowerCase_char m
                 = map toLowerCase_char p @ w @ map toLowerCase_char q"
    by simp
  then show "js_includes (toLowerCase m) w"
    unfolding js_includes_sublist sublist_def toLowerCase_def by blast
qed

lemma lowered_patterns:
  "js_includes (toLowerCase m) ''too many requests'' = contains_ignoring_case m ''too many requests''"
  "js_includes (toLowerCase m) ''api key'' = contains_ignoring_case m ''api key''"
  "js_includes (toLowerCase m) ''safety'' = contains_ignoring_case m ''safety''"
  "js_includes (toLowerCase m) ''blocked'' = contains_ignoring_case m ''blocked''"
  "js_includes (toLowerCase m) ''network'' = contains_ignoring_case m ''network''"
  "js_includes (toLowerCase m) ''fetch'' = contains_ignoring_case m ''fetch''"
  "js_includes (toLowerCase m) ''quota'' = contains_ignoring_case m ''quota''"
  by (rule includes_lowered, simp add: pattern_char_def)+

lemma parseApiError_text:
  assumes "error_text v = Text m"
  shows "parseApiError v = Inr (classified m)"
  unfolding parseApiError_def assms message_read.case lowered_patterns
  unfolding js_includes_contains
  by (simp only: classified_def classification_rules_def first_match.simps)

lemma parseApiError_ErrorLike:
  "parseApiError (ErrorLike e) =
     Inr (classified
           (case err_message e of
              None \<Rightarrow> err_toString e
            | Some m \<Rightarrow> if m = [] then err_toString e else m))"
  by (cases "err_message e") (simp_all add: parseApiError_text error_text_def truthy_def)

section \<open>The error classification\<close>




section \<open>The handler without overlap\<close>

text \<open>The audio branch and the handler of a call that is not overlapped, written out.\<close>

lemma schedule_audio_unfold:
  "schedule_audio dec now d s =
     (let s1 = s\<lparr>nextStartTime := max (nextStartTime s) now\<rparr>
      in (case dec d of
            Some audioBuffer \<Rightarrow>
              (let source = \<lparr>node_id = created s1, buffer = audioBuffer,
                             playbackRate = speechRate s1\<rparr>
               in s1\<lparr>created := created s1 + 1,
                     calls := calls s1 @ [SourceStart source (nextStartTime s1)],
                     nextStartTime := nextStartTime s1 + duration audioBuffer / speechRate s1,
                     sources := sources s1 @ [source]\<rparr>)
          | None \<Rightarrow> s1\<lparr>calls := calls s1 @ [ConsoleError ''Audio decoding error:'']\<rparr>))"
  by (simp add: schedule_audio_def play_decoded_def clamp_cursor_def Let_def
        split: option.splits)

lemma onmessage_unfold:
  "onmessage dec now msg s =
     (case audioData msg of
        Inl err \<Rightarrow> Inl err
      | Inr None \<Rightarrow> Inr (after_audio msg s)
      | Inr (Some d) \<Rightarrow>
          if truthy d
          then (case outputAudioCtx s of
                  None \<Rightarrow> Inl TypeError
                | Some outCtx \<Rightarrow> Inr (after_audio msg (schedule_audio dec now d s)))
          else Inr (after_audio msg s))"
  by (simp add: onmessage_def onmessage_begin_def onmessage_resume_def schedule_audio_def
        split: sum.splits option.splits)

section \<open>Unfolding the examples\<close>

lemmas example_defs =
  initial_state_def example_env_def live_example_def example_decoder_def empty_content_def
  audio_message_def interrupted_message_def input_message_def output_message_def
  turnComplete_message_def

lemmas handler_defs =
  handle_def onmessage_unfold audioData_def is_interrupted_def is_turnComplete_def
  after_audio_def schedule_audio_unfold handle_interrupted_def handle_transcription_def
  handle_turnComplete_def completed_turns_def append_text_def truthy_def trim_def
  isWhiteSpace_def slice_last_def onopen_def onended_def startSession_def stopSession_def
  stop_tracks_def close_audioCtx_def close_outputAudioCtx_def stop_sources_def close_session_def
  press_start_def press_stop_def onclose_def onerror_def
  saveCurrentSessionToHistory_def newItem_def duration_def new_calls_def Let_def

section \<open>The playback cursor\<close>

lemma after_audio_fields [simp]:
  "nextStartTime (after_audio msg s) = (if is_interrupted msg then 0 else nextStartTime s)"
  "sources (after_audio msg s) = (if is_interrupted msg then [] else sources s)"
  "calls (after_audio msg s) =
     calls s @ (if is_interrupted msg then map SourceStop (sources s) else [])"
  "speechRate (after_audio msg s) = speechRate s"
  "outputAudioCtx (after_audio msg s) = outputAudioCtx s"
  "history (after_audio msg s) = history s"
  "isActive (after_audio msg s) = isActive s"
  "created (after_audio msg s) = created s"
  by (simp_all add: after_audio_def handle_turnComplete_def handle_transcription_def
        handle_interrupted_def stop_sources_def Let_def split: option.splits)

lemma schedule_audio_Some:
  "dec d = Some b \<Longrightarrow>
   schedule_audio dec now d s =
     s\<lparr>created := created s + 1,
       calls := calls s @ [SourceStart \<lparr>node_id = created s, buffer = b, playbackRate = speechRate s\<rparr>
                             (max (nextStartTime s) now)],
       nextStartTime := max (nextStartTime s) now + duration b / speechRate s,
       sources := sources s @ [\<lparr>node_id = created s, buffer = b, playbackRate = speechRate s\<rparr>]\<rparr>"
  by (simp add: schedule_audio_unfold Let_def)

lemma schedule_audio_None:
  "dec d = None \<Longrightarrow>
   schedule_audio dec now d s =
     s\<lparr>nextStartTime := max (nextStartTime s) now,
       calls := calls s @ [ConsoleError ''Audio decoding error:'']\<rparr>"
  by (simp add: schedule_audio_unfold Let_def)

lemma started_append [simp]: "started (xs @ ys) = started xs @ started ys"
  by (induction xs rule: started.induct) auto

lemma started_SourceStop [simp]: "started (map SourceStop ns) = []"
  by (induction ns) auto

lemma new_calls_append [simp]: "calls s' = calls s @ xs \<Longrightarrow> new_calls s s' = xs"
  by (simp add: new_calls_def)

lemma new_calls_same [simp]: "calls s' = calls s \<Longrightarrow> new_calls s s' = []"
  by (simp add: new_calls_def)

lemma handle_no_interrupt:
  assumes "\<not> interrupts ev"
  shows "(started (new_calls s (handle dec ev s)) = [] \<and>
          nextStartTime s \<le> nextStartTime (handle dec ev s))
       \<or> (\<exists>n. started (new_calls s (handle dec ev s)) = [(n, max (nextStartTime s) (clock ev))]
              \<and> nextStartTime (handle dec ev s) =
                  max (nextStartTime s) (clock ev) + duration (buffer n) / speechRate s)"
proof (cases ev)
  case (SourceEnded src)
  then show ?thesis by (simp add: handle_def onended_def)
next
  case (ServerMessage now msg)
  with assms have ni: "\<not> is_interrupted msg" by simp
  show ?thesis
  proof (cases "onmessage dec now msg s")
    case (Inl err)
    then show ?thesis using ServerMessage by (simp add: handle_def)
  next
    case (Inr s')
    then show ?thesis using ServerMessage ni
      by (cases "audioData msg")
         (auto simp: handle_def onmessage_unfold schedule_audio_unfold Let_def
               split: option.splits if_splits sum.splits)
  qed
qed

lemma speechRate_handle [simp]: "speechRate (handle dec ev s) = speechRate s"
  by (cases ev)
     (auto simp: handle_def onmessage_unfold onended_def schedule_audio_unfold Let_def
           split: option.splits sum.splits)

lemma no_overlap_from_mono: "c \<le> c' \<Longrightarrow> no_overlap_from r c' xs \<Longrightarrow> no_overlap_from r c xs"
  by (cases xs) auto

lemma clips_no_overlap_from:
  "\<forall>ev \<in> set evs. \<not> interrupts ev \<Longrightarrow>
   no_overlap_from (speechRate s) (nextStartTime s) (clips dec s evs)"
proof (induction evs arbitrary: s)
  case Nil
  then show ?case by simp
next
  case (Cons ev evs)
  then have ni: "\<not> interrupts ev" and rest: "\<forall>ev \<in> set evs. \<not> interrupts ev" by simp_all
  have IH: "no_overlap_from (speechRate s) (nextStartTime (handle dec ev s))
              (clips dec (handle dec ev s) evs)"
    using Cons.IH [OF rest, of "handle dec ev s"] by simp
  from handle_no_interrupt [OF ni, of s dec] show ?case
  proof
    assume a: "started (new_calls s (handle dec ev s)) = [] \<and>
               nextStartTime s \<le> nextStartTime (handle dec ev s)"
    then show ?thesis using IH no_overlap_from_mono by simp blast
  next
    assume "\<exists>n. started (new_calls s (handle dec ev s)) = [(n, max (nextStartTime s) (clock ev))]
              \<and> nextStartTime (handle dec ev s) =
                  max (nextStartTime s) (clock ev) + duration (buffer n) / speechRate s"
    then obtain n where
      st: "started (new_calls s (handle dec ev s)) = [(n, max (nextStartTime s) (clock ev))]"
      and nx: "nextStartTime (handle dec ev s) =
                  max (nextStartTime s) (clock ev) + duration (buffer n) / speechRate s"
      by blast
    show ?thesis using IH by (simp add: st nx)
  qed
qed

lemma no_overlap_from_imp: "no_overlap_from r c xs \<Longrightarrow> no_overlap r xs"
  by (cases xs) (auto simp: no_overlap_def)



lemma duration_nonneg: "0 \<le> duration b"
  by (simp add: duration_def)

lemma onmessage_Inr:
  assumes "onmessage dec now msg s = Inr s'"
  shows "s' = after_audio msg s
       \<or> (\<exists>d. audioData msg = Inr (Some d) \<and> truthy d \<and> outputAudioCtx s \<noteq> None
              \<and> s' = after_audio msg (schedule_audio dec now d s))"
  using assms
  by (auto simp: onmessage_unfold split: sum.splits option.splits if_splits)

lemma onmessage_audio:
  assumes "audioData msg = Inr (Some d)" and "truthy d" and "outputAudioCtx s = Some c"
  shows "onmessage dec now msg s = Inr (after_audio msg (schedule_audio dec now d s))"
  using assms by (simp add: onmessage_unfold)

lemma schedule_audio_cursor_mono:
  "0 < speechRate s \<Longrightarrow> nextStartTime s \<le> nextStartTime (schedule_audio dec now d s)"
proof (cases "dec d")
  case None
  then show ?thesis by (simp add: schedule_audio_None)
next
  case (Some b)
  assume "0 < speechRate s"
  then have "0 \<le> duration b / speechRate s"
    using duration_nonneg [of b] by simp
  then show ?thesis using Some by (simp add: schedule_audio_Some)
qed

lemma schedule_audio_started:
  "started (new_calls s (schedule_audio dec now d s)) = []
   \<or> (\<exists>n. started (new_calls s (schedule_audio dec now d s)) = [(n, max (nextStartTime s) now)])"
  by (cases "dec d") (simp_all add: schedule_audio_Some schedule_audio_None)

lemma new_calls_after_audio [simp]:
  "started (new_calls s (after_audio msg s')) = started (new_calls s s')"
  if "length (calls s) \<le> length (calls s')"
  using that by (simp add: new_calls_def)

lemma calls_schedule_audio_length: "length (calls s) \<le> length (calls (schedule_audio dec now d s))"
  by (cases "dec d") (simp_all add: schedule_audio_Some schedule_audio_None)

subsection \<open>Overlapped handler calls\<close>

text \<open>
  A handler call that no other call overlaps is a run of two steps: the arrival of the
  message and, at once, the end of its decoding.
\<close>

lemma handle_as_run:
  "fst (run dec (s, []) [Arrive now msg, Resume t 0]) = handle dec (ServerMessage now msg) s"
  by (simp add: handle_def onmessage_def split: sum.splits option.splits prod.splits)

lemma play_decoded_Some:
  "dec d = Some b \<Longrightarrow>
   play_decoded dec d s =
     s\<lparr>created := created s + 1,
       calls := calls s @ [SourceStart \<lparr>node_id = created s, buffer = b, playbackRate = speechRate s\<rparr>
                             (nextStartTime s)],
       nextStartTime := nextStartTime s + duration b / speechRate s,
       sources := sources s @ [\<lparr>node_id = created s, buffer = b, playbackRate = speechRate s\<rparr>]\<rparr>"
  by (simp add: play_decoded_def Let_def)

lemma play_decoded_None:
  "dec d = None \<Longrightarrow>
   play_decoded dec d s = s\<lparr>calls := calls s @ [ConsoleError ''Audio decoding error:'']\<rparr>"
  by (simp add: play_decoded_def)

lemma play_decoded_fields [simp]:
  "speechRate (play_decoded dec d s) = speechRate s"
  "outputAudioCtx (play_decoded dec d s) = outputAudioCtx s"
  by (simp_all add: play_decoded_def Let_def split: option.splits)

lemma clamp_cursor_fields [simp]:
  "speechRate (clamp_cursor now s) = speechRate s"
  "outputAudioCtx (clamp_cursor now s) = outputAudioCtx s"
  "nextStartTime (clamp_cursor now s) = max (nextStartTime s) now"
  "calls (clamp_cursor now s) = calls s"
  "sources (clamp_cursor now s) = sources s"
  by (simp_all add: clamp_cursor_def)

lemma play_decoded_cursor_mono:
  "0 < speechRate s \<Longrightarrow> nextStartTime s \<le> nextStartTime (play_decoded dec d s)"
proof (cases "dec d")
  case None
  then show ?thesis by (simp add: play_decoded_None)
next
  case (Some b)
  assume "0 < speechRate s"
  then have "0 \<le> duration b / speechRate s"
    using duration_nonneg [of b] by simp
  then show ?thesis using Some by (simp add: play_decoded_Some)
qed

lemma play_decoded_started:
  "started (new_calls s (play_decoded dec d s)) = []
   \<or> (\<exists>n. started (new_calls s (play_decoded dec d s)) = [(n, nextStartTime s)])"
  by (cases "dec d") (simp_all add: play_decoded_Some play_decoded_None)

lemma calls_play_decoded_length: "length (calls s) \<le> length (calls (play_decoded dec d s))"
  by (cases "dec d") (simp_all add: play_decoded_Some play_decoded_None)

lemma onmessage_resume_started:
  "started (new_calls s (onmessage_resume dec d msg s)) = started (new_calls s (play_decoded dec d s))"
  unfolding onmessage_resume_def
  using calls_play_decoded_length [of s dec d] by simp

lemma onmessage_resume_fields [simp]:
  "speechRate (onmessage_resume dec d msg s) = speechRate s"
  "outputAudioCtx (onmessage_resume dec d msg s) = outputAudioCtx s"
  "nextStartTime (onmessage_resume dec d msg s) =
     (if is_interrupted msg then 0 else nextStartTime (play_decoded dec d s))"
  by (simp_all add: onmessage_resume_def)

lemma onmessage_begin_cases:
  assumes "onmessage_begin now msg s = Inr (s', k)"
  shows "(k = None \<and> s' = after_audio msg s \<and> \<not> has_audio msg)
       \<or> (\<exists>d. k = Some d \<and> s' = clamp_cursor now s \<and> has_audio msg)"
  using assms
  by (auto simp: onmessage_begin_def has_audio_def split: sum.splits option.splits if_splits)

lemma onmessage_begin_no_audio:
  assumes "\<not> has_audio msg"
  shows "onmessage_begin now msg s = Inr (after_audio msg s, None)
       \<or> (\<exists>err. onmessage_begin now msg s = Inl err)"
  using assms
  by (auto simp: onmessage_begin_def has_audio_def split: sum.splits option.splits if_splits)

lemma run_append: "run dec c (xs @ ys) = run dec (run dec c xs) ys"
  by (induction xs arbitrary: c) simp_all

lemma scheduled_append:
  "scheduled dec c (xs @ ys) = scheduled dec c xs @ scheduled dec (run dec c xs) ys"
  by (induction xs arbitrary: c) simp_all

lemma settled_step:
  assumes "settled (s, ps)" and "\<not> step_interrupted st" and "0 < speechRate s"
  shows "settled (do_step dec st (s, ps))
       \<and> nextStartTime s \<le> nextStartTime (fst (do_step dec st (s, ps)))
       \<and> speechRate (fst (do_step dec st (s, ps))) = speechRate s
       \<and> list_all (\<lambda>(r, t, w). r \<le> w) (scheduled dec (s, ps) [st])"
proof (cases st)
  case (PlaybackEnded src)
  then show ?thesis using assms(1) by (simp add: onended_def settled_def)
next
  case (Arrive now msg)
  with assms(2) have ni: "\<not> is_interrupted msg" by simp
  show ?thesis
  proof (cases "onmessage_begin now msg s")
    case (Inl err)
    then show ?thesis using Arrive assms(1) by simp
  next
    case (Inr r)
    obtain s' k where r: "r = (s', k)" by (cases r)
    from onmessage_begin_cases [of now msg s s' k] Inr r
    consider "k = None" "s' = after_audio msg s"
      | d where "k = Some d" "s' = clamp_cursor now s"
      by auto
    then show ?thesis
    proof cases
      case 1
      then show ?thesis using Arrive Inr r ni assms(1) by (simp add: settled_def)
    next
      case 2
      have "list_all (\<lambda>p. clock_read p \<le> max (nextStartTime s) now
                          \<and> \<not> is_interrupted (call_message p)) ps"
        using assms(1) by (auto simp: settled_def list_all_iff)
      then show ?thesis using Arrive Inr r ni 2 by (simp add: settled_def)
    qed
  qed
next
  case (Resume now k)
  show ?thesis
  proof (cases "k < length ps")
    case False
    then show ?thesis using Resume assms(1) by simp
  next
    case True
    let ?p = "ps ! k"
    let ?s' = "onmessage_resume dec (awaited ?p) (call_message ?p) s"
    from True have mem: "?p \<in> set ps" by simp
    with assms(1) have p: "clock_read ?p \<le> nextStartTime s" "\<not> is_interrupted (call_message ?p)"
      by (auto simp: settled_def list_all_iff)
    have mono: "nextStartTime s \<le> nextStartTime ?s'"
      using p(2) play_decoded_cursor_mono [OF assms(3)] by simp
    have rest: "set (take k ps @ drop (Suc k) ps) \<subseteq> set ps"
      using set_take_subset [of k ps] set_drop_subset [of "Suc k" ps] by auto
    have settled': "settled (?s', take k ps @ drop (Suc k) ps)"
      unfolding settled_def list_all_iff
    proof
      fix q assume "q \<in> set (snd (?s', take k ps @ drop (Suc k) ps))"
      with rest have "q \<in> set ps" by auto
      with assms(1) have "clock_read q \<le> nextStartTime s" "\<not> is_interrupted (call_message q)"
        by (auto simp: settled_def list_all_iff)
      with mono show "clock_read q \<le> nextStartTime (fst (?s', take k ps @ drop (Suc k) ps))
                      \<and> \<not> is_interrupted (call_message q)"
        by simp
    qed
    have st: "list_all (\<lambda>(r, t, w). r \<le> w) (scheduled dec (s, ps) [Resume now k])"
      using True p(1) play_decoded_started [of s dec "awaited ?p"]
      by (auto simp: onmessage_resume_started)
    from settled' mono st show ?thesis using Resume True by simp
  qed
qed

lemma settled_run:
  assumes "settled c" and "\<forall>st \<in> set steps. \<not> step_interrupted st" and "0 < speechRate (fst c)"
  shows "nextStartTime (fst c) \<le> nextStartTime (fst (run dec c steps))
       \<and> list_all (\<lambda>(r, t, w). r \<le> w) (scheduled dec c steps)"
  using assms
proof (induction steps arbitrary: c)
  case Nil
  then show ?case by simp
next
  case (Cons st steps)
  obtain s ps where c: "c = (s, ps)" by (cases c)
  from Cons.prems c have a: "settled (s, ps)" "\<not> step_interrupted st" "0 < speechRate s"
    by simp_all
  note step = settled_step [OF a, of dec]
  have IH: "nextStartTime (fst (do_step dec st c)) \<le> nextStartTime (fst (run dec (do_step dec st c) steps))
       \<and> list_all (\<lambda>(r, t, w). r \<le> w) (scheduled dec (do_step dec st c) steps)"
    using Cons.prems step c a(3) by (intro Cons.IH) simp_all
  have "scheduled dec c (st # steps) = scheduled dec c [st] @ scheduled dec (do_step dec st c) steps"
    by simp
  then show ?case using IH step c by (simp del: scheduled.simps)
qed

lemma without_audio_step:
  assumes "without_audio st"
  shows "\<exists>s'. do_step dec st (s, ps) = (s', ps)
            \<and> outputAudioCtx s' = outputAudioCtx s
            \<and> (nextStartTime s' = 0 \<or> nextStartTime s' = nextStartTime s)
            \<and> (step_interrupted st \<or> nextStartTime s' = nextStartTime s)"
proof (cases st)
  case (PlaybackEnded src)
  then show ?thesis by (simp add: onended_def)
next
  case (Resume now k)
  then show ?thesis using assms by simp
next
  case (Arrive now msg)
  with assms have na: "\<not> has_audio msg" by simp
  from onmessage_begin_no_audio [OF na, of now s] show ?thesis
    using Arrive by auto
qed

lemma without_audio_scheduled: "without_audio st \<Longrightarrow> scheduled dec c [st] = []"
  by (cases st) simp_all

lemma without_audio_run:
  assumes "\<forall>st \<in> set steps. without_audio st"
  shows "\<exists>s'. run dec (s, ps) steps = (s', ps)
            \<and> outputAudioCtx s' = outputAudioCtx s
            \<and> (nextStartTime s' = 0 \<or> nextStartTime s' = nextStartTime s)
            \<and> ((\<exists>st \<in> set steps. step_interrupted st) \<or> nextStartTime s' = nextStartTime s)
            \<and> scheduled dec (s, ps) steps = []"
  using assms
proof (induction steps arbitrary: s)
  case Nil
  then show ?case by simp
next
  case (Cons st steps)
  then have wa: "without_audio st" and rest: "\<forall>st \<in> set steps. without_audio st" by simp_all
  from without_audio_step [OF wa, of dec s ps] obtain s1 where
    s1: "do_step dec st (s, ps) = (s1, ps)" "outputAudioCtx s1 = outputAudioCtx s"
        "nextStartTime s1 = 0 \<or> nextStartTime s1 = nextStartTime s"
        "step_interrupted st \<or> nextStartTime s1 = nextStartTime s"
    by blast
  from Cons.IH [OF rest, of s1] obtain s' where
    s': "run dec (s1, ps) steps = (s', ps)" "outputAudioCtx s' = outputAudioCtx s1"
        "nextStartTime s' = 0 \<or> nextStartTime s' = nextStartTime s1"
        "(\<exists>st \<in> set steps. step_interrupted st) \<or> nextStartTime s' = nextStartTime s1"
        "scheduled dec (s1, ps) steps = []"
    by blast
  have sch: "scheduled dec (s, ps) (st # steps) = []"
    using without_audio_scheduled [OF wa, of dec "(s, ps)"] s1(1) s'(5) by (cases st) simp_all
  show ?case
    using s1 s' sch by (intro exI [of _ s']) (simp del: scheduled.simps, metis)
qed

text \<open>
  In a run that handles no interruption the clips do not overlap, however the handler
  calls do: every clip starts at or after the start of the clip started before it plus
  that clip's duration divided by the rate, and at or after the clock its call read.
\<close>

lemma no_overlap_from_lower: "no_overlap_from r c xs \<Longrightarrow> c' \<le> c \<Longrightarrow> no_overlap_from r c' xs"
  by (cases xs) auto

lemma play_decoded_clip:
  "(started (new_calls s (play_decoded dec d s)) = []
      \<and> nextStartTime (play_decoded dec d s) = nextStartTime s)
   \<or> (\<exists>n. started (new_calls s (play_decoded dec d s)) = [(n, nextStartTime s)]
          \<and> nextStartTime (play_decoded dec d s)
              = nextStartTime s + duration (buffer n) / speechRate s)"
  by (cases "dec d") (simp_all add: play_decoded_Some play_decoded_None)

lemma overlapped_step:
  assumes "settled (s, ps)" and "\<not> step_interrupted st" and "0 < speechRate s"
    and "no_overlap_from (speechRate s) (nextStartTime (fst (do_step dec st (s, ps)))) rest"
  shows "no_overlap_from (speechRate s) (nextStartTime s)
           (overlapped_clips dec (s, ps) [st] @ rest)"
proof (cases st)
  case (PlaybackEnded src)
  then show ?thesis using assms(4) by (simp add: onended_def)
next
  case (Arrive now msg)
  have "nextStartTime s \<le> nextStartTime (fst (do_step dec st (s, ps)))"
    using settled_step [OF assms(1-3), of dec] by simp
  from no_overlap_from_lower [OF assms(4) this] show ?thesis using Arrive by simp
next
  case (Resume now k)
  show ?thesis
  proof (cases "k < length ps")
    case False
    then show ?thesis using Resume assms(4) by simp
  next
    case True
    let ?p = "ps ! k"
    from True have "?p \<in> set ps" by simp
    with assms(1) have p: "clock_read ?p \<le> nextStartTime s" "\<not> is_interrupted (call_message ?p)"
      by (auto simp: settled_def list_all_iff)
    from play_decoded_clip [of s dec "awaited ?p"] show ?thesis
    proof
      assume a: "started (new_calls s (play_decoded dec (awaited ?p) s)) = []
        \<and> nextStartTime (play_decoded dec (awaited ?p) s) = nextStartTime s"
      then show ?thesis
        using Resume True p(2) assms(4) by (simp add: onmessage_resume_started)
    next
      assume "\<exists>n. started (new_calls s (play_decoded dec (awaited ?p) s)) = [(n, nextStartTime s)]
          \<and> nextStartTime (play_decoded dec (awaited ?p) s)
              = nextStartTime s + duration (buffer n) / speechRate s"
      then obtain n where n: "started (new_calls s (play_decoded dec (awaited ?p) s)) = [(n, nextStartTime s)]"
          "nextStartTime (play_decoded dec (awaited ?p) s)
              = nextStartTime s + duration (buffer n) / speechRate s"
        by blast
      then show ?thesis
        using Resume True p assms(4) by (simp add: onmessage_resume_started)
    qed
  qed
qed

lemma no_overlap_overlapped:
  assumes "settled c" and "\<forall>st \<in> set steps. \<not> step_interrupted st" and "0 < speechRate (fst c)"
  shows "no_overlap_from (speechRate (fst c)) (nextStartTime (fst c))
           (overlapped_clips dec c steps)"
  using assms
proof (induction steps arbitrary: c)
  case Nil
  then show ?case by simp
next
  case (Cons st steps)
  obtain s ps where c: "c = (s, ps)" by (cases c)
  from Cons.prems c have a: "settled (s, ps)" "\<not> step_interrupted st" "0 < speechRate s"
    by simp_all
  note step = settled_step [OF a, of dec]
  have IH: "no_overlap_from (speechRate (fst (do_step dec st c)))
              (nextStartTime (fst (do_step dec st c))) (overlapped_clips dec (do_step dec st c) steps)"
    using Cons.prems step c a(3) by (intro Cons.IH) simp_all
  then have "no_overlap_from (speechRate s) (nextStartTime (fst (do_step dec st (s, ps))))
               (overlapped_clips dec (do_step dec st (s, ps)) steps)"
    using step c by simp
  from overlapped_step [OF a this]
  have "no_overlap_from (speechRate s) (nextStartTime s)
           (overlapped_clips dec (s, ps) [st] @ overlapped_clips dec (do_step dec st (s, ps)) steps)" .
  moreover have "overlapped_clips dec c (st # steps)
      = overlapped_clips dec (s, ps) [st] @ overlapped_clips dec (do_step dec st (s, ps)) steps"
    using c by simp
  ultimately show ?case using c by (simp del: overlapped_clips.simps)
qed

lemma step_cursor:
  assumes "0 < speechRate s"
  shows "nextStartTime s \<le> nextStartTime (fst (do_step dec st (s, qs)))
       \<or> (handles_interruption st qs \<and> nextStartTime (fst (do_step dec st (s, qs))) = 0)"
proof (cases st)
  case (PlaybackEnded src)
  then show ?thesis by (simp add: onended_def)
next
  case (Arrive now msg)
  show ?thesis
  proof (cases "onmessage_begin now msg s")
    case (Inl err)
    then show ?thesis using Arrive by simp
  next
    case (Inr r)
    obtain s' k where r: "r = (s', k)" by (cases r)
    from onmessage_begin_cases [of now msg s s' k] Inr r
    consider "k = None" "s' = after_audio msg s"
      | d where "k = Some d" "s' = clamp_cursor now s"
      by auto
    then show ?thesis
      using Arrive Inr r by cases simp_all
  qed
next
  case (Resume now k)
  then show ?thesis
    using play_decoded_cursor_mono [OF assms, of dec "awaited (qs ! k)"]
    by simp
qed

lemma stopSession_cursor: "nextStartTime (stopSession a e s) = nextStartTime s"
  by (simp add: stopSession_def saveCurrentSessionToHistory_def Let_def stop_tracks_def
        close_audioCtx_def close_outputAudioCtx_def stop_sources_def close_session_def
        split: option.splits list.splits)

lemmas overlap_defs =
  onmessage_begin_def onmessage_resume_def play_decoded_def clamp_cursor_def settled_def
  has_audio_def quiet_step_def

lemma no_overlap_overlapped_example:
  "map (\<lambda>(r, n, w). (r, w, duration (buffer n)))
     (overlapped_clips example_decoder (live_example 2, [])
        [Arrive 1 (audio_message ''clip''), Arrive (5/4) (audio_message ''ab''),
         Resume (3/2) 1, Resume (7/4) 0])
   = [(5/4, 5/4, 1), (1, 7/4, 2)]"
  by (simp add: example_defs handler_defs overlap_defs)




section \<open>Interruption, rate and decoding failures\<close>

lemma handle_no_audio_cursor:
  "\<not> carries_audio ev \<Longrightarrow> nextStartTime s = 0 \<Longrightarrow> nextStartTime (handle dec ev s) = 0"
  by (cases ev)
     (auto simp: handle_def onmessage_unfold onended_def has_audio_def
           split: sum.splits option.splits if_splits)

lemma outputAudioCtx_schedule_audio [simp]:
  "outputAudioCtx (schedule_audio dec now d s) = outputAudioCtx s"
  by (simp add: schedule_audio_unfold Let_def split: option.splits)

lemma outputAudioCtx_handle [simp]: "outputAudioCtx (handle dec ev s) = outputAudioCtx s"
  by (cases ev)
     (auto simp: handle_def onmessage_unfold onended_def schedule_audio_unfold Let_def
           split: option.splits sum.splits)

lemma handle_all_no_audio_zero:
  "\<forall>ev \<in> set evs. \<not> carries_audio ev \<Longrightarrow> nextStartTime s = 0 \<Longrightarrow>
   nextStartTime (handle_all dec s evs) = 0"
  by (induction evs arbitrary: s) (simp_all add: handle_no_audio_cursor)

lemma outputAudioCtx_handle_all [simp]:
  "outputAudioCtx (handle_all dec s evs) = outputAudioCtx s"
  by (induction evs arbitrary: s) simp_all

lemma speechRate_handle_all [simp]: "speechRate (handle_all dec s evs) = speechRate s"
  by (induction evs arbitrary: s) simp_all

lemma after_audio_started:
  "started (new_calls s0 (after_audio msg s)) = started (new_calls s0 s)"
  if "length (calls s0) \<le> length (calls s)"
  using that by (simp add: new_calls_def)

text \<open>
  C3, amended. Handler calls may overlap. Right after the interrupted branch has run
  the set of scheduled source nodes is empty and the cursor is 0. When no call is
  suspended at that moment, then after any further steps without audio the next audio
  message that arrives and decodes, with no audio message and no interruption arriving
  before its decoding is over, has its only clip started exactly at the output clock
  read at its arrival (a clock reading is never negative), whatever the cursor was
  before the interruption.
\<close>

theorem interruption_reset:
  assumes "is_interrupted mi"
    and "\<forall>st \<in> set before. without_audio st"
    and "audioData msg = Inr (Some d)" and "truthy d" and "dec d = Some b"
    and "outputAudioCtx s = Some c" and "0 \<le> now"
    and "\<forall>st \<in> set during. quiet_step st"
  shows "sources (after_audio mi s) = []
       \<and> nextStartTime (after_audio mi s) = 0
       \<and> scheduled dec (after_audio mi s, [])
            (before @ [Arrive now msg] @ during @ [Resume t 0])
          = [(now, t, now)]"
proof -
  let ?s1 = "after_audio mi s"
  let ?call = "\<lparr>clock_read = now, awaited = d, call_message = msg\<rparr>"
  have s1: "sources ?s1 = []" "nextStartTime ?s1 = 0" "outputAudioCtx ?s1 = Some c"
    using assms(1) assms(6) by simp_all
  from without_audio_run [OF assms(2), of dec ?s1 "[]"] obtain s2 where
    s2: "run dec (?s1, []) before = (s2, [])" "outputAudioCtx s2 = outputAudioCtx ?s1"
        "nextStartTime s2 = 0 \<or> nextStartTime s2 = nextStartTime ?s1"
        "scheduled dec (?s1, []) before = []"
    by blast
  from s2(3) s1(2) have cur2: "nextStartTime s2 = 0" by auto
  have ctx2: "outputAudioCtx s2 = Some c" using s2(2) s1(3) by simp
  let ?s3 = "clamp_cursor now s2"
  have bgn: "onmessage_begin now msg s2 = Inr (?s3, Some d)"
    using assms(3) assms(4) ctx2 by (simp add: onmessage_begin_def)
  have arr: "do_step dec (Arrive now msg) (s2, []) = (?s3, [?call])"
    using bgn by simp
  have cur3: "nextStartTime ?s3 = now"
    using cur2 assms(7) by simp
  have quiet: "\<forall>st \<in> set during. without_audio st"
    using assms(8) by (simp add: quiet_step_def)
  have calm: "\<not> (\<exists>st \<in> set during. step_interrupted st)"
    using assms(8) by (simp add: quiet_step_def)
  from without_audio_run [OF quiet, of dec ?s3 "[?call]"] calm obtain s4 where
    s4: "run dec (?s3, [?call]) during = (s4, [?call])"
        "nextStartTime s4 = nextStartTime ?s3"
        "scheduled dec (?s3, [?call]) during = []"
    by blast
  have cur4: "nextStartTime s4 = now" using s4(2) cur3 by simp
  have "started (new_calls s4 (onmessage_resume dec d msg s4))
          = started (new_calls s4 (play_decoded dec d s4))"
    by (rule onmessage_resume_started)
  also have "\<dots> = [(\<lparr>node_id = created s4, buffer = b, playbackRate = speechRate s4\<rparr>, now)]"
    using cur4 assms(5) by (simp add: play_decoded_Some [of dec d b])
  finally have last: "scheduled dec (s4, [?call]) [Resume t 0] = [(now, t, now)]"
    by simp
  have "scheduled dec (?s1, []) (before @ [Arrive now msg] @ during @ [Resume t 0])
          = scheduled dec (?s1, []) before
            @ scheduled dec (s2, []) ([Arrive now msg] @ during @ [Resume t 0])"
    by (simp only: scheduled_append s2(1))
  also have "scheduled dec (s2, []) ([Arrive now msg] @ during @ [Resume t 0])
          = scheduled dec (?s3, [?call]) (during @ [Resume t 0])"
    using arr by simp
  also have "\<dots> = scheduled dec (?s3, [?call]) during @ scheduled dec (s4, [?call]) [Resume t 0]"
    by (simp only: scheduled_append s4(1))
  finally have "scheduled dec (?s1, []) (before @ [Arrive now msg] @ during @ [Resume t 0])
          = [(now, t, now)]"
    using s2(4) s4(3) last by simp
  with s1(1) s1(2) show ?thesis by simp
qed

theorem interruption_reset_witness:
  "is_interrupted interrupted_message
   \<and> list_all without_audio [Arrive (5/2) (input_message ''Wait'')]
   \<and> list_all quiet_step [Arrive 3 (output_message ''Oui'')]
   \<and> nextStartTime (handle example_decoder (ServerMessage 1 (audio_message ''clip''))
        (live_example 1)) = 3
   \<and> sources (after_audio interrupted_message
        (handle example_decoder (ServerMessage 1 (audio_message ''clip'')) (live_example 1))) = []
   \<and> scheduled example_decoder
        (after_audio interrupted_message
          (handle example_decoder (ServerMessage 1 (audio_message ''clip'')) (live_example 1)), [])
        [Arrive (5/2) (input_message ''Wait''), Arrive (11/4) (audio_message ''ab''),
         Arrive 3 (output_message ''Oui''), Resume (13/4) 0]
       = [(11/4, 13/4, 11/4)]
   \<and> scheduled example_decoder (live_example 1, [])
        [Arrive 1 (audio_message ''clip''), Resume (3/2) 0, Arrive 2 interrupted_message,
         Arrive (5/2) (input_message ''Wait''), Arrive (11/4) (audio_message ''ab''),
         Arrive 3 (output_message ''Oui''), Resume (13/4) 0]
       = [(1, 3/2, 1), (11/4, 13/4, 11/4)]"
  using interruption_reset [where mi = interrupted_message
      and before = "[Arrive (5/2) (input_message ''Wait'')]"
      and msg = "audio_message ''ab''" and d = "''ab''" and dec = example_decoder
      and b = "\<lparr>buf_length = 24000, buf_sampleRate = 24000\<rparr>"
      and s = "handle example_decoder (ServerMessage 1 (audio_message ''clip'')) (live_example 1)"
      and c = 2 and now = "11/4" and during = "[Arrive 3 (output_message ''Oui'')]"
      and t = "13/4"]
  by (simp add: example_defs handler_defs overlap_defs)

text \<open>
  The claim as written holds for every interruption and every next audio message. A
  call that is suspended at its decoding when the interruption is handled (at clock
  5/4) starts its clip afterwards, at 0: the node is in the set again and the cursor
  is at 2, so the next clip, arriving at clock 3/2, is started at 2. After an
  interruption with no call suspended, a clip arriving at clock 2 is started at 0 when
  a second interruption is handled before its decoding is over, and at 9/4 when another
  audio message arrives at that clock before its decoding is over.
\<close>

theorem interruption_reset_counterexample:
  "sources (fst (run example_decoder (live_example 1, [])
      [Arrive 1 (audio_message ''clip''), Arrive (5/4) interrupted_message])) = []
   \<and> map node_id (sources (fst (run example_decoder (live_example 1, [])
        [Arrive 1 (audio_message ''clip''), Arrive (5/4) interrupted_message,
         Resume (11/8) 0]))) = [0]
   \<and> nextStartTime (fst (run example_decoder (live_example 1, [])
        [Arrive 1 (audio_message ''clip''), Arrive (5/4) interrupted_message,
         Resume (11/8) 0])) = 2
   \<and> scheduled example_decoder (live_example 1, [])
        [Arrive 1 (audio_message ''clip''), Arrive (5/4) interrupted_message, Resume (11/8) 0,
         Arrive (3/2) (audio_message ''ab''), Resume (13/8) 0]
       = [(1, 11/8, 0), (3/2, 13/8, 2)]
   \<and> scheduled example_decoder (live_example 1, [])
        [Arrive 1 interrupted_message, Arrive 2 (audio_message ''ab''),
         Arrive (9/4) interrupted_message, Resume (5/2) 0]
       = [(2, 5/2, 0)]
   \<and> scheduled example_decoder (live_example 1, [])
        [Arrive 1 interrupted_message, Arrive 2 (audio_message ''ab''),
         Arrive (9/4) (audio_message ''clip''), Resume (5/2) 0]
       = [(2, 5/2, 9/4)]"
  by (simp add: example_defs handler_defs overlap_defs)

text \<open>
  C4. A clip that decodes, in a message without interruption, is started at the cursor
  clamped up to the clock, and the advance that follows leaves the cursor at that
  start time plus exactly the buffer's duration divided by the speech rate: measured
  from the old cursor when it was not behind the clock, from the clock reading
  otherwise. The node plays the decoded buffer at the speech rate. A clip of 2 s at
  rate 2 moves the cursor by 1 s.
\<close>

theorem rate_adjusted_advance:
  assumes "audioData msg = Inr (Some d)" and "truthy d" and "dec d = Some b"
    and "outputAudioCtx s = Some c" and "\<not> is_interrupted msg" and "0 < speechRate s"
  shows "\<exists>s'. onmessage dec now msg s = Inr s'
            \<and> started (new_calls s s')
                = [(\<lparr>node_id = created s, buffer = b, playbackRate = speechRate s\<rparr>,
                    max (nextStartTime s) now)]
            \<and> nextStartTime s' = max (nextStartTime s) now + duration b / speechRate s
            \<and> (if now \<le> nextStartTime s
                then nextStartTime s' - nextStartTime s = duration b / speechRate s
                else nextStartTime s' - now = duration b / speechRate s)"
proof -
  let ?s' = "after_audio msg (schedule_audio dec now d s)"
  have run: "onmessage dec now msg s = Inr ?s'"
    using onmessage_audio [OF assms(1) assms(2) assms(4)] .
  have "started (new_calls s ?s') = started (new_calls s (schedule_audio dec now d s))"
    by (rule after_audio_started) (rule calls_schedule_audio_length)
  then have st: "started (new_calls s ?s')
                = [(\<lparr>node_id = created s, buffer = b, playbackRate = speechRate s\<rparr>,
                    max (nextStartTime s) now)]"
    using assms(3) by (simp add: schedule_audio_Some [of dec d b])
  have cur: "nextStartTime ?s' = max (nextStartTime s) now + duration b / speechRate s"
    using assms(3) assms(5) by (simp add: schedule_audio_Some [of dec d b])
  from run st cur show ?thesis by (auto simp: max_def)
qed

theorem rate_adjusted_advance_witness:
  "audioData (audio_message ''clip'') = Inr (Some ''clip'') \<and> truthy ''clip''
   \<and> example_decoder ''clip'' = Some \<lparr>buf_length = 48000, buf_sampleRate = 24000\<rparr>
   \<and> duration \<lparr>buf_length = 48000, buf_sampleRate = 24000\<rparr> = 2
   \<and> speechRate (live_example 2) = 2
   \<and> \<not> is_interrupted (audio_message ''clip'')
   \<and> nextStartTime (handle example_decoder (ServerMessage 1 (audio_message ''ab''))
        (live_example 2)) = 3/2
   \<and> nextStartTime
        (handle example_decoder (ServerMessage (5/4) (audio_message ''clip''))
          (handle example_decoder (ServerMessage 1 (audio_message ''ab'')) (live_example 2)))
       = 3/2 + 1"
  using rate_adjusted_advance [of "audio_message ''clip''" "''clip''" example_decoder
      "\<lparr>buf_length = 48000, buf_sampleRate = 24000\<rparr>"
      "handle example_decoder (ServerMessage 1 (audio_message ''ab'')) (live_example 2)"
      2 "5/4"]
  by (simp add: example_defs handler_defs)



section \<open>Stopping a session\<close>

lemma stopSession_released:
  "\<not> isActive (stopSession a e s) \<and> \<not> isConnecting (stopSession a e s)
   \<and> stream (stopSession a e s) = None \<and> audioCtx (stopSession a e s) = None
   \<and> outputAudioCtx (stopSession a e s) = None \<and> sources (stopSession a e s) = []
   \<and> sessionPromise (stopSession a e s) = None"
  by (simp add: stopSession_def saveCurrentSessionToHistory_def Let_def stop_tracks_def
        close_audioCtx_def close_outputAudioCtx_def stop_sources_def close_session_def
        split: option.splits list.splits)

lemma stopSession_fixed:
  assumes "\<not> isActive s" and "\<not> isConnecting s" and "stream s = None"
    and "audioCtx s = None" and "outputAudioCtx s = None" and "sources s = []"
    and "sessionPromise s = None"
  shows "stopSession False e s = s"
  using assms
  by (cases s)
     (simp add: stopSession_def Let_def stop_tracks_def close_audioCtx_def
        close_outputAudioCtx_def stop_sources_def close_session_def)

lemma stopSession_again: "stopSession False e2 (stopSession a e1 s) = stopSession a e1 s"
  using stopSession_released [of a e1 s] by (intro stopSession_fixed) simp_all

text \<open>
  C7. A call of \<open>stopSession\<close> that follows another changes nothing: the state after the
  two calls, including the history and the list of platform calls made (track stops,
  context closes, source stops, session closes), is the state after the first call,
  whatever identifier and time the second call would draw. The first call leaves
  \<open>isActive\<close> false, so the second call reads it as false, whether it comes from the
  button of the next render or from the session's \<open>onclose\<close> callback (which the
  closing of the session triggers).
\<close>

theorem stopSession_idempotent:
  "stopSession False e2 (stopSession a e1 s) = stopSession a e1 s
   \<and> isActive (stopSession a e1 s) = False
   \<and> press_stop e2 (press_stop e1 s) = press_stop e1 s
   \<and> onclose e2 (press_stop e1 s) = press_stop e1 s
   \<and> onclose e2 (onerror e1 err s) = onerror e1 err s"
  using stopSession_released [of a e1 s] stopSession_released [of "isActive s" e1 s]
  by (simp add: press_stop_def onclose_def onerror_def parseApiError_ErrorLike Let_def
        stopSession_again)

section \<open>The transcript\<close>

lemma currentTranscription_schedule_audio [simp]:
  "currentTranscription (schedule_audio dec now d s) = currentTranscription s"
  "transcriptions (schedule_audio dec now d s) = transcriptions s"
  by (simp_all add: schedule_audio_unfold Let_def split: option.splits)

lemma handle_interrupted_transcript [simp]:
  "currentTranscription (handle_interrupted msg s) = currentTranscription s"
  "transcriptions (handle_interrupted msg s) = transcriptions s"
  by (simp_all add: handle_interrupted_def stop_sources_def)

lemma handle_transcription_fields [simp]:
  "transcriptions (handle_transcription msg s) = transcriptions s"
  by (simp add: handle_transcription_def Let_def split: option.splits)

lemma handle_transcription_cong:
  "currentTranscription s1 = currentTranscription s2 \<Longrightarrow>
   currentTranscription (handle_transcription msg s1)
     = currentTranscription (handle_transcription msg s2)"
  by (simp add: handle_transcription_def Let_def split: option.splits)

lemma completed_turns_Nil: "completed_turns u m = [] \<longleftrightarrow> \<not> truthy u \<and> \<not> truthy m"
  by (simp add: completed_turns_def)

lemma handle_turnComplete_transcriptions:
  "transcriptions (handle_turnComplete msg s) =
     (if is_turnComplete msg
      then (if completed_turns (trim (user (currentTranscription s)))
                 (trim (model (currentTranscription s))) = []
            then transcriptions s
            else slice_last 20
                   (transcriptions s
                    @ completed_turns (trim (user (currentTranscription s)))
                        (trim (model (currentTranscription s)))))
      else transcriptions s)"
  by (simp add: handle_turnComplete_def Let_def completed_turns_Nil)

lemma handle_turnComplete_buffer:
  "is_turnComplete msg \<Longrightarrow>
   currentTranscription (handle_turnComplete msg s) = \<lparr>user = [], model = []\<rparr>"
  by (simp add: handle_turnComplete_def Let_def)

lemma after_audio_transcriptions:
  assumes "currentTranscription s1 = currentTranscription s"
    and "transcriptions s1 = transcriptions s"
  shows "transcriptions (after_audio msg s1) =
     (if is_turnComplete msg
      then (if completed_turns
                 (trim (user (currentTranscription (handle_transcription msg s))))
                 (trim (model (currentTranscription (handle_transcription msg s)))) = []
            then transcriptions s
            else slice_last 20
                   (transcriptions s
                    @ completed_turns
                        (trim (user (currentTranscription (handle_transcription msg s))))
                        (trim (model (currentTranscription (handle_transcription msg s))))))
      else transcriptions s)"
proof -
  have "currentTranscription (handle_transcription msg (handle_interrupted msg s1))
          = currentTranscription (handle_transcription msg s)"
    by (rule handle_transcription_cong) (simp add: assms(1))
  then show ?thesis
    by (simp add: after_audio_def handle_turnComplete_transcriptions assms(2))
qed

lemma onmessage_transcriptions:
  assumes "onmessage dec now msg s = Inr s'"
  shows "transcriptions s' = transcriptions (after_audio msg s)"
  using onmessage_Inr [OF assms]
  by (auto simp: after_audio_transcriptions [of _ s])

lemma onmessage_buffer:
  assumes "onmessage dec now msg s = Inr s'" and "is_turnComplete msg"
  shows "currentTranscription s' = \<lparr>user = [], model = []\<rparr>"
  using onmessage_Inr [OF assms(1)] assms(2)
  by (auto simp: after_audio_def handle_turnComplete_buffer)

text \<open>
  C6. A handled message with \<open>turnComplete\<close> takes the two accumulators (with the
  deltas of the same message appended) and trims them to \<open>u\<close> and \<open>m\<close>. The transcript
  becomes the last 20 elements of the old transcript followed by the user turn, when
  \<open>u\<close> is not empty, and then the model turn, when \<open>m\<close> is not empty; when both are empty
  the transcript is unchanged. Both accumulators are empty afterwards.
\<close>

theorem turn_complete_flush:
  assumes "onmessage dec now msg s = Inr s'" and "is_turnComplete msg"
    and "u = trim (user (currentTranscription (handle_transcription msg s)))"
    and "m = trim (model (currentTranscription (handle_transcription msg s)))"
  shows "transcriptions s' =
           (if u = [] \<and> m = [] then transcriptions s
            else slice_last 20
                   (transcriptions s
                    @ (if u = [] then [] else [\<lparr>role = User, turn_text = u\<rparr>])
                    @ (if m = [] then [] else [\<lparr>role = Model, turn_text = m\<rparr>])))
       \<and> currentTranscription s' = \<lparr>user = [], model = []\<rparr>"
proof -
  have "transcriptions s' = transcriptions (after_audio msg s)"
    using assms(1) by (rule onmessage_transcriptions)
  also have "\<dots> = (if completed_turns u m = [] then transcriptions s
                   else slice_last 20 (transcriptions s @ completed_turns u m))"
    using assms(2) by (simp add: after_audio_transcriptions [of s s] assms(3) assms(4))
  also have "\<dots> = (if u = [] \<and> m = [] then transcriptions s
            else slice_last 20
                   (transcriptions s
                    @ (if u = [] then [] else [\<lparr>role = User, turn_text = u\<rparr>])
                    @ (if m = [] then [] else [\<lparr>role = Model, turn_text = m\<rparr>])))"
    by (simp add: completed_turns_def truthy_def)
  finally show ?thesis
    using onmessage_buffer [OF assms(1) assms(2)] by simp
qed

theorem turn_complete_flush_witness:
  "is_turnComplete turnComplete_message
   \<and> trim (user (currentTranscription (handle_transcription turnComplete_message
        (handle_all example_decoder (live_example 1)
          [ServerMessage 1 (input_message ''Hello''),
           ServerMessage 2 (output_message ''Bonjour'')])))) = ''Hello''
   \<and> trim (model (currentTranscription (handle_transcription turnComplete_message
        (handle_all example_decoder (live_example 1)
          [ServerMessage 1 (input_message ''Hello''),
           ServerMessage 2 (output_message ''Bonjour'')])))) = ''Bonjour''
   \<and> transcriptions
        (handle_all example_decoder (live_example 1)
          [ServerMessage 1 (input_message ''Hello''),
           ServerMessage 2 (output_message ''Bonjour''),
           ServerMessage 3 turnComplete_message])
       = [\<lparr>role = User, turn_text = ''Hello''\<rparr>, \<lparr>role = Model, turn_text = ''Bonjour''\<rparr>]
   \<and> currentTranscription
        (handle_all example_decoder (live_example 1)
          [ServerMessage 1 (input_message ''Hello''),
           ServerMessage 2 (output_message ''Bonjour''),
           ServerMessage 3 turnComplete_message])
       = \<lparr>user = [], model = []\<rparr>
   \<and> transcriptions
        (handle_all example_decoder (live_example 1)
          [ServerMessage 1 (output_message '' Bon''),
           ServerMessage 2 (output_message ''jour ''),
           ServerMessage 3 turnComplete_message])
       = [\<lparr>role = Model, turn_text = ''Bonjour''\<rparr>]"
  using turn_complete_flush [of example_decoder 3 turnComplete_message
      "handle_all example_decoder (live_example 1)
          [ServerMessage 1 (input_message ''Hello''),
           ServerMessage 2 (output_message ''Bonjour'')]"
      "handle_all example_decoder (live_example 1)
          [ServerMessage 1 (input_message ''Hello''),
           ServerMessage 2 (output_message ''Bonjour''),
           ServerMessage 3 turnComplete_message]"
      "''Hello''" "''Bonjour''"]
  by (simp add: example_defs handler_defs)

section \<open>The session's history entry\<close>

lemma slice_last_length: "length (slice_last n xs) \<le> n"
  by (simp add: slice_last_def)

lemma slice_last_short: "length xs \<le> n \<Longrightarrow> slice_last n xs = xs"
  by (simp add: slice_last_def)

lemma slice_last_Nil: "0 < n \<Longrightarrow> slice_last n xs = [] \<longleftrightarrow> xs = []"
  by (cases xs) (auto simp: slice_last_def)

lemma slice_last_append: "slice_last n (slice_last n xs @ ys) = slice_last n (xs @ ys)"
proof (cases "length xs \<le> n")
  case True
  then show ?thesis by (simp add: slice_last_short)
next
  case False
  then have "length xs + length ys - (length xs - n + n) + (length xs - n)
               = length xs + length ys - n"
    by simp
  then show ?thesis using False by (simp add: slice_last_def)
qed

lemma handle_transcriptions:
  "transcriptions (handle dec ev s) =
     (if flushed dec ev s = [] then transcriptions s
      else slice_last 20 (transcriptions s @ flushed dec ev s))"
proof (cases ev)
  case (SourceEnded src)
  then show ?thesis by (simp add: handle_def flushed_def onended_def)
next
  case (ServerMessage now msg)
  show ?thesis
  proof (cases "onmessage dec now msg s")
    case (Inl err)
    then show ?thesis using ServerMessage by (simp add: handle_def flushed_def)
  next
    case (Inr s')
    then show ?thesis
      using ServerMessage onmessage_transcriptions [OF Inr]
      by (simp add: handle_def flushed_def after_audio_transcriptions [of s s])
  qed
qed

lemma handle_transcriptions_length:
  "length (transcriptions s) \<le> 20 \<Longrightarrow> length (transcriptions (handle dec ev s)) \<le> 20"
  by (simp add: handle_transcriptions slice_last_length)

lemma handle_all_transcriptions:
  "length (transcriptions s) \<le> 20 \<Longrightarrow>
   transcriptions (handle_all dec s evs) = slice_last 20 (transcriptions s @ committed dec s evs)"
proof (induction evs arbitrary: s)
  case Nil
  then show ?case by (simp add: slice_last_short)
next
  case (Cons ev evs)
  have "transcriptions (handle_all dec (handle dec ev s) evs)
          = slice_last 20 (transcriptions (handle dec ev s) @ committed dec (handle dec ev s) evs)"
    using Cons.prems by (intro Cons.IH handle_transcriptions_length)
  also have "\<dots> = slice_last 20
                     ((transcriptions s @ flushed dec ev s) @ committed dec (handle dec ev s) evs)"
    by (simp add: handle_transcriptions slice_last_append del: append_assoc)
  finally show ?case by simp
qed

lemma handle_session_fields [simp]:
  "isActive (handle dec ev s) = isActive s"
  "history (handle dec ev s) = history s"
  by (cases ev;
      auto simp: handle_def onmessage_unfold onended_def schedule_audio_unfold Let_def
           split: option.splits sum.splits)+

lemma handle_all_session_fields [simp]:
  "isActive (handle_all dec s evs) = isActive s"
  "history (handle_all dec s evs) = history s"
  by (induction evs arbitrary: s) simp_all

lemma session_start:
  assumes "\<not> isActive s0"
  shows "isActive (onopen (press_start e0 (Inr acq) s0))"
    and "transcriptions (onopen (press_start e0 (Inr acq) s0)) = []"
    and "history (onopen (press_start e0 (Inr acq) s0)) = history s0"
  using assms by (cases acq; simp add: onopen_def press_start_def startSession_def Let_def)+

lemma history_stopSession:
  "history (stopSession a e s) =
     (if a
      then (case transcriptions s of
              [] \<Rightarrow> history s
            | t # ts \<Rightarrow> take 30 (newItem e t ts # history s))
      else history s)"
  by (simp add: stopSession_def saveCurrentSessionToHistory_def Let_def stop_tracks_def
        close_audioCtx_def close_outputAudioCtx_def stop_sources_def close_session_def
        split: option.splits list.splits)

lemma session_history:
  assumes "\<not> isActive s0"
  shows "history (press_stop e (handle_all dec (onopen (press_start e0 (Inr acq) s0)) evs)) =
     (case slice_last 20 (committed dec (onopen (press_start e0 (Inr acq) s0)) evs) of
        [] \<Rightarrow> history s0
      | t # ts \<Rightarrow> take 30 (newItem e t ts # history s0))"
  using session_start [OF assms, of e0 acq]
  by (simp add: press_stop_def history_stopSession handle_all_transcriptions
        split: list.splits)

text \<open>
  A session ended by the \<open>End Session\<close> button (started from an inactive component,
  opened, any events handled, then the button pressed): a history entry is created
  exactly when at least one turn was committed. The entry is put in front of the
  earlier history (which keeps its first 30 elements); it holds the identifier and the
  time drawn at the stop, the committed turns in order (the last 20 of them, which is
  the transcript at the stop), and as summary the text of the first of these turns when
  it has at most 60 characters, otherwise its first 60 characters followed by three
  dots.
\<close>

theorem history_entry_on_press_stop:
  assumes "\<not> isActive s0"
    and "s1 = onopen (press_start e0 (Inr acq) s0)"
  shows "history (press_stop e (handle_all dec s1 evs)) =
           (case slice_last 20 (committed dec s1 evs) of
              [] \<Rightarrow> history s0
            | t # ts \<Rightarrow>
                take 30
                  (\<lparr>item_id = randomUUID e, timestamp = dateNow e, messages = t # ts,
                    summary = Some (if length (turn_text t) \<le> 60 then turn_text t
                                    else take 60 (turn_text t) @ ''...'')\<rparr>
                   # history s0))
       \<and> (slice_last 20 (committed dec s1 evs) = []) = (committed dec s1 evs = [])"
proof -
  have h1: "history (press_stop e (handle_all dec s1 evs)) =
     (case slice_last 20 (committed dec s1 evs) of
        [] \<Rightarrow> history s0
      | t # ts \<Rightarrow> take 30 (newItem e t ts # history s0))"
    unfolding assms(2) using assms(1) by (rule session_history)
  have ni: "newItem e t ts =
      \<lparr>item_id = randomUUID e, timestamp = dateNow e, messages = t # ts,
       summary = Some (if length (turn_text t) \<le> 60 then turn_text t
                       else take 60 (turn_text t) @ ''...'')\<rparr>" for t ts
    by (simp add: newItem_def Let_def)
  have h2: "(slice_last 20 (committed dec s1 evs) = []) = (committed dec s1 evs = [])"
    by (simp add: slice_last_Nil)
  from h1 [unfolded ni] h2 show ?thesis by (rule conjI)
qed

theorem history_entry_on_press_stop_example:
  "\<not> isActive (initial_state 1)
   \<and> history (press_stop \<lparr>randomUUID = ''1b4e28ba'', dateNow = 1700000060000\<rparr>
        (handle_all example_decoder (live_example 1) [ServerMessage 1 (input_message ''Hel'')]))
       = []
   \<and> map summary
        (history (press_stop \<lparr>randomUUID = ''1b4e28ba'', dateNow = 1700000060000\<rparr>
          (handle_all example_decoder (live_example 1)
            [ServerMessage 1
               (input_message
                  ''Could you tell me where the nearest train station is from here, please?''),
             ServerMessage 2 turnComplete_message])))
       = [Some ''Could you tell me where the nearest train station is from he...'']"
  using history_entry_on_press_stop [of "initial_state 1" "live_example 1" example_env
      "(\<lparr>tracks = [0]\<rparr>, 1, 2, 3)" "\<lparr>randomUUID = ''1b4e28ba'', dateNow = 1700000060000\<rparr>"
      example_decoder "[ServerMessage 1 (input_message ''Hel'')]"]
  by (simp add: example_defs handler_defs flushed_def)

text \<open>
  C8. The scenario of the specification: a session receives the user deltas \<open>Hel\<close> and
  \<open>lo\<close> and a turn-complete, which commits the one turn of the user, \<open>Hello\<close>. Stopped by
  the \<open>End Session\<close> button, the session leaves one history entry with that turn. Stopped
  by the closing of the session from the server, or by a session error, it leaves no
  entry: the callbacks \<open>onclose\<close> and \<open>onerror\<close> run the \<open>stopSession\<close> of the render that
  started the session, which reads \<open>isActive\<close> as false and skips the save.
\<close>

theorem history_not_saved_on_close:
  "committed example_decoder (live_example 1) hello_session
     = [\<lparr>role = User, turn_text = ''Hello''\<rparr>]
   \<and> isActive (handle_all example_decoder (live_example 1) hello_session)
   \<and> history (press_stop \<lparr>randomUUID = ''1b4e28ba'', dateNow = 1700000060000\<rparr>
        (handle_all example_decoder (live_example 1) hello_session))
       = [\<lparr>item_id = ''1b4e28ba'', timestamp = 1700000060000,
           messages = [\<lparr>role = User, turn_text = ''Hello''\<rparr>], summary = Some ''Hello''\<rparr>]
   \<and> history (onclose \<lparr>randomUUID = ''1b4e28ba'', dateNow = 1700000060000\<rparr>
        (handle_all example_decoder (live_example 1) hello_session)) = []
   \<and> history (onerror \<lparr>randomUUID = ''1b4e28ba'', dateNow = 1700000060000\<rparr>
        \<lparr>err_message = Some ''network down'', err_toString = ''[object ErrorEvent]''\<rparr>
        (handle_all example_decoder (live_example 1) hello_session)) = []"
  by (simp add: example_defs handler_defs flushed_def hello_session_def
        parseApiError_ErrorLike)

text \<open>
  C10. Every handled event leaves the transcript as it was or as the last 20 elements
  of the transcript followed by the turns the event commits. In a session the
  transcript is the last 20 of all turns committed so far, so it never holds more
  than 20, and an entry that a stop adds to the history holds the transcript, at most
  20 turns.
\<close>

theorem transcript_capped:
  assumes "\<not> isActive s0"
    and "s1 = onopen (press_start e0 (Inr acq) s0)"
  shows "transcriptions (handle dec ev s) =
           (if flushed dec ev s = [] then transcriptions s
            else slice_last 20 (transcriptions s @ flushed dec ev s))
       \<and> transcriptions (handle_all dec s1 evs) = slice_last 20 (committed dec s1 evs)
       \<and> length (transcriptions (handle_all dec s1 evs)) \<le> 20
       \<and> (history (stopSession a e (handle_all dec s1 evs)) = history s0
          \<or> (\<exists>item. history (stopSession a e (handle_all dec s1 evs))
                       = take 30 (item # history s0)
                   \<and> messages item = transcriptions (handle_all dec s1 evs)
                   \<and> length (messages item) \<le> 20))"
proof -
  have start: "transcriptions s1 = []" "isActive s1" "history s1 = history s0"
    unfolding assms(2) using session_start [OF assms(1), of e0 acq] by simp_all
  have run: "transcriptions (handle_all dec s1 evs) = slice_last 20 (committed dec s1 evs)"
    using handle_all_transcriptions [of s1 dec evs] start(1) by simp
  then have len: "length (transcriptions (handle_all dec s1 evs)) \<le> 20"
    by (simp add: slice_last_length)
  have hist: "history (stopSession a e (handle_all dec s1 evs)) = history s0
          \<or> (\<exists>item. history (stopSession a e (handle_all dec s1 evs))
                       = take 30 (item # history s0)
                   \<and> messages item = transcriptions (handle_all dec s1 evs)
                   \<and> length (messages item) \<le> 20)"
  proof (cases "transcriptions (handle_all dec s1 evs)")
    case Nil
    then show ?thesis by (simp add: history_stopSession start)
  next
    case (Cons t ts)
    show ?thesis
    proof (cases a)
      case False
      then show ?thesis by (simp add: history_stopSession start)
    next
      case True
      have "history (stopSession a e (handle_all dec s1 evs))
              = take 30 (newItem e t ts # history s0)"
        using Cons True by (simp add: history_stopSession start)
      moreover have "messages (newItem e t ts) = transcriptions (handle_all dec s1 evs)"
        using Cons by (simp add: newItem_def Let_def)
      ultimately show ?thesis using len by metis
    qed
  qed
  from handle_transcriptions [of dec ev s] run len hist show ?thesis by blast
qed

theorem transcript_capped_witness:
  "\<not> isActive (initial_state 1)
   \<and> map turn_text (committed example_decoder (live_example 1) long_session)
       = [''u1'', ''m1'', ''u2'', ''m2'', ''u3'', ''m3'', ''u4'', ''m4'', ''u5'', ''m5'',
          ''u6'', ''m6'', ''u7'', ''m7'', ''u8'', ''m8'', ''u9'', ''m9'', ''u10'', ''m10'',
          ''u11'', ''m11'']
   \<and> map turn_text (transcriptions (handle_all example_decoder (live_example 1) long_session))
       = [''u2'', ''m2'', ''u3'', ''m3'', ''u4'', ''m4'', ''u5'', ''m5'',
          ''u6'', ''m6'', ''u7'', ''m7'', ''u8'', ''m8'', ''u9'', ''m9'', ''u10'', ''m10'',
          ''u11'', ''m11'']
   \<and> map (\<lambda>item. length (messages item))
        (history (stopSession True example_env
           (handle_all example_decoder (live_example 1) long_session))) = [20]"
  using transcript_capped [of "initial_state 1" "live_example 1" example_env
      "(\<lparr>tracks = [0]\<rparr>, 1, 2, 3)" example_decoder
      "ServerMessage 1 (exchange_message ''u1'' ''m1'')" "live_example 1" long_session
      True example_env]
  by (simp add: example_defs handler_defs flushed_def exchange_message_def long_session_def)

end
